theory Spec2Isabelle
  imports Main "HOL-Library.Word"
begin

section \<open>Primitive types\<close>

text \<open>
  \<open>TimestampNs\<close> is \<open>std::chrono::nanoseconds\<close>, a signed 64-bit count read with
  \<open>sint\<close>; signed overflow, undefined in C++, is modelled as two's-complement
  wrap-around.  \<open>OrderId\<close> is \<open>uint64_t\<close>, \<open>EventId\<close> is \<open>int64_t\<close>.
\<close>

type_synonym TimestampNs = "64 word"
type_synonym OrderId = "64 word"
type_synonym EventId = "64 word"
type_synonym Symbol = string
type_synonym Asset = string

definition TimestampNs_max :: TimestampNs where
  "TimestampNs_max = 0x7FFFFFFFFFFFFFFF"

section \<open>IEEE-754 binary64 arithmetic\<close>

text \<open>
  \<open>Price\<close>, \<open>Quantity\<close> and \<open>Position\<close> are C++ \<open>double\<close>.  A value is a NaN, an
  infinity with its sign (\<open>True\<close> is negative), or a finite number
  \<open>(-1)^s * m * 2^e\<close> with \<open>0 \<le> m\<close>.  The canonical finite values have \<open>m < 2^53\<close>,
  \<open>-1074 \<le> e \<le> 971\<close> and either \<open>2^52 \<le> m\<close> or \<open>e = -1074\<close> (zero and the
  subnormals); \<open>2^53\<close> is 9007199254740992.  Every operation rounds to nearest,
  ties to even, as the default rounding mode does.  A sum with a zero operand is the
  other operand, an exact zero sum of opposite values is \<open>+0\<close>, and a comparison with
  zero looks at the sign of the other operand only; the general case aligns both
  operands to the smaller exponent and works on integers.
\<close>

datatype double = NaN | Inf bool | Fin bool int int

type_synonym Price = double
type_synonym Quantity = double
type_synonym Position = double

function bitlen :: "int \<Rightarrow> int" where
  "bitlen n = (if n \<le> 0 then 0 else 1 + bitlen (n div 2))"
  by pat_completeness auto
termination
  by (relation "measure nat") auto

declare bitlen.simps [simp del]

text \<open>\<open>pow2 k\<close> is \<open>2^k\<close> for \<open>0 \<le> k\<close> (and 1 below), computed by squaring.\<close>

function pow2 :: "int \<Rightarrow> int" where
  "pow2 k =
     (if k \<le> 0 then 1
      else let h = pow2 (k div 2) in if even k then h * h else 2 * (h * h))"
  by pat_completeness auto
termination
  by (relation "measure nat") auto

declare pow2.simps [simp del]

definition round_nearest_even :: "bool \<Rightarrow> int \<Rightarrow> int \<Rightarrow> double" where
  "round_nearest_even s m e =
     (if m = 0 then Fin s 0 (- 1074)
      else let e' = max (e + bitlen m - 53) (- 1074) in
        if e' \<le> e then (if 971 < e' then Inf s else Fin s (m * pow2 (e - e')) e')
        else let sh = e' - e;
                 q = m div pow2 sh;
                 r = m mod pow2 sh;
                 h = pow2 (sh - 1);
                 q' = (if h < r \<or> (r = h \<and> odd q) then q + 1 else q);
                 m'' = (if q' = 9007199254740992 then 4503599627370496 else q');
                 e'' = (if q' = 9007199254740992 then e' + 1 else e')
             in if 971 < e'' then Inf s else Fin s m'' e'')"

definition signed_int :: "bool \<Rightarrow> int \<Rightarrow> int" where
  "signed_int s i = (if s then - i else i)"

fun isnan :: "double \<Rightarrow> bool" where
  "isnan NaN = True"
| "isnan _ = False"

fun dneg :: "double \<Rightarrow> double" where
  "dneg NaN = NaN"
| "dneg (Inf s) = Inf (\<not> s)"
| "dneg (Fin s m e) = Fin (\<not> s) m e"

fun dadd :: "double \<Rightarrow> double \<Rightarrow> double" where
  "dadd NaN _ = NaN"
| "dadd _ NaN = NaN"
| "dadd (Inf s) (Inf t) = (if s = t then Inf s else NaN)"
| "dadd (Inf s) (Fin _ _ _) = Inf s"
| "dadd (Fin _ _ _) (Inf t) = Inf t"
| "dadd (Fin s m e) (Fin t n f) =
     (if m = 0 \<and> n = 0 then Fin (s \<and> t) 0 (- 1074)
      else if m = 0 then Fin t n f
      else if n = 0 then Fin s m e
      else let g = min e f;
               c = signed_int s (m * pow2 (e - g)) + signed_int t (n * pow2 (f - g))
           in if c = 0 then Fin False 0 (- 1074)
              else round_nearest_even (c < 0) \<bar>c\<bar> g)"

definition dsub :: "double \<Rightarrow> double \<Rightarrow> double" where
  "dsub a b = dadd a (dneg b)"

fun dmul :: "double \<Rightarrow> double \<Rightarrow> double" where
  "dmul NaN _ = NaN"
| "dmul _ NaN = NaN"
| "dmul (Inf s) (Inf t) = Inf (s \<noteq> t)"
| "dmul (Inf s) (Fin t n _) = (if n = 0 then NaN else Inf (s \<noteq> t))"
| "dmul (Fin s m _) (Inf t) = (if m = 0 then NaN else Inf (s \<noteq> t))"
| "dmul (Fin s m e) (Fin t n f) = round_nearest_even (s \<noteq> t) (m * n) (e + f)"

fun ddiv :: "double \<Rightarrow> double \<Rightarrow> double" where
  "ddiv NaN _ = NaN"
| "ddiv _ NaN = NaN"
| "ddiv (Inf s) (Inf t) = NaN"
| "ddiv (Inf s) (Fin t _ _) = Inf (s \<noteq> t)"
| "ddiv (Fin s _ _) (Inf t) = Fin (s \<noteq> t) 0 (- 1074)"
| "ddiv (Fin s m e) (Fin t n f) =
     (if n = 0 then (if m = 0 then NaN else Inf (s \<noteq> t))
      else let k = max 0 (bitlen n + 55 - bitlen m);
               q = (m * pow2 k) div n;
               r = (m * pow2 k) mod n
           in round_nearest_even (s \<noteq> t) (2 * q + (if r = 0 then 0 else 1))
                (e - f - k - 1))"

fun dless :: "double \<Rightarrow> double \<Rightarrow> bool" where
  "dless NaN _ = False"
| "dless _ NaN = False"
| "dless (Inf s) (Inf t) = (s \<and> \<not> t)"
| "dless (Inf s) (Fin _ _ _) = s"
| "dless (Fin _ _ _) (Inf t) = (\<not> t)"
| "dless (Fin s m e) (Fin t n f) =
     (if m = 0 \<or> n = 0 then signed_int s m < signed_int t n
      else let g = min e f
           in signed_int s (m * pow2 (e - g)) < signed_int t (n * pow2 (f - g)))"

fun dle :: "double \<Rightarrow> double \<Rightarrow> bool" where
  "dle NaN _ = False"
| "dle _ NaN = False"
| "dle (Inf s) (Inf t) = (s \<or> \<not> t)"
| "dle (Inf s) (Fin _ _ _) = s"
| "dle (Fin _ _ _) (Inf t) = (\<not> t)"
| "dle (Fin s m e) (Fin t n f) =
     (if m = 0 \<or> n = 0 then signed_int s m \<le> signed_int t n
      else let g = min e f
           in signed_int s (m * pow2 (e - g)) \<le> signed_int t (n * pow2 (f - g)))"

definition double_of_int :: "int \<Rightarrow> double" where
  "double_of_int i = round_nearest_even (i < 0) \<bar>i\<bar> 0"

text \<open>\<open>std::min(a, b)\<close> is \<open>(b < a) ? b : a\<close> and \<open>std::max(a, b)\<close> is \<open>(a < b) ? b : a\<close>.\<close>

definition std_min :: "double \<Rightarrow> double \<Rightarrow> double" where
  "std_min a b = (if dless b a then b else a)"

definition std_max :: "double \<Rightarrow> double \<Rightarrow> double" where
  "std_max a b = (if dless a b then b else a)"

section \<open>flow.hpp: order vocabulary\<close>

datatype Side = Buy | Sell

datatype DoneStatus = Done | Rejected | InternalReject

datatype TIF = GTC | IOC

text \<open>\<open>sideToSign\<close> is \<open>static_cast<int>(side)\<close> with \<open>Buy = 1\<close>, \<open>Sell = -1\<close>.\<close>

fun sideToSign :: "Side \<Rightarrow> int" where
  "sideToSign Buy = 1"
| "sideToSign Sell = - 1"

record Order =
  orderId :: OrderId
  side :: Side
  price :: Price
  qty :: Quantity
  tif :: TIF

section \<open>symbology.hpp\<close>

text \<open>
  \<open>symbol.substr(0, 3)\<close> never throws; \<open>symbol.substr(4, 3)\<close> throws
  \<open>std::out_of_range\<close> when the symbol has fewer than four characters.
\<close>

definition getBaseAsset :: "Symbol \<Rightarrow> Asset" where
  "getBaseAsset smb = take 3 smb"

definition getQuoteAsset :: "Symbol \<Rightarrow> Asset option" where
  "getQuoteAsset smb = (if length smb < 4 then None else Some (take 3 (drop 4 smb)))"

section \<open>market_data.hpp and the top-of-book cache\<close>

record TopOfBook =
  bidSize :: double
  bidPrice :: double
  askSize :: double
  askPrice :: double

text \<open>
  The cache (\<open>CacheSubscriber<md::TopOfBook>\<close>) maps a topic to a pointer to a record
  that the producer owns.  \<open>md_memory\<close> is the store those pointers address: the
  record each address holds now.
\<close>

type_synonym book_ptr = nat

record MarketData =
  md_cache :: "Symbol \<rightharpoonup> book_ptr"
  md_memory :: "book_ptr \<Rightarrow> TopOfBook"

definition getCachedRecord :: "MarketData \<Rightarrow> Symbol \<Rightarrow> book_ptr option" where
  "getCachedRecord md topic = md_cache md topic"

section \<open>risk.hpp and SimpleRiskModel\<close>

definition getFairPrice :: "MarketData \<Rightarrow> Asset \<Rightarrow> Price" where
  "getFairPrice md asset =
     (if asset = ''USD'' then double_of_int 1
      else case getCachedRecord md (asset @ ''/USD'') of
        Some p \<Rightarrow>
          ddiv (dadd (bidPrice (md_memory md p)) (askPrice (md_memory md p))) (double_of_int 2)
      | None \<Rightarrow>
          (case getCachedRecord md (''USD/'' @ asset) of
             Some p \<Rightarrow>
               ddiv (double_of_int 2) (dadd (bidPrice (md_memory md p)) (askPrice (md_memory md p)))
           | None \<Rightarrow> NaN))"

text \<open>
  \<open>Risk::getNOP\<close> iterates the positions container; the list order stands for the
  iteration order of the \<open>std::unordered_map\<close>.  The accumulator is \<open>(longs, shorts)\<close>.
\<close>

fun getNOP_loop ::
  "(Asset \<Rightarrow> Price) \<Rightarrow> (Asset \<times> Position) list \<Rightarrow> Quantity \<times> Quantity \<Rightarrow> Quantity \<times> Quantity"
where
  "getNOP_loop fp [] acc = acc"
| "getNOP_loop fp ((asset, position) # rest) (longs, shorts) =
     (if dle (double_of_int 0) position
      then getNOP_loop fp rest (dadd longs (dmul position (fp asset)), shorts)
      else getNOP_loop fp rest (longs, dsub shorts (dmul position (fp asset))))"

definition getNOP :: "(Asset \<Rightarrow> Price) \<Rightarrow> (Asset \<times> Position) list \<Rightarrow> Quantity" where
  "getNOP fp positions =
     (case getNOP_loop fp positions (double_of_int 0, double_of_int 0) of
        (longs, shorts) \<Rightarrow> std_max longs shorts)"

section \<open>lp_sim.cpp: the LP simulator\<close>

record Settings =
  inboundDelay :: TimestampNs
  outboundDelay :: TimestampNs
  minOrderGap :: TimestampNs
  maxNOP :: Quantity

record Impl =
  m_positions :: "(Asset \<times> Position) list"
  m_settings :: Settings
  m_lastOrderId :: OrderId

text \<open>
  An executor refers to its two position slots by reference; the slot of an asset is the
  entry of \<open>m_positions\<close> with that key, so a symbol whose base and quote coincide
  aliases one slot.  \<open>m_book\<close> is the cached \<open>const md::TopOfBook *\<close>.
\<close>

record ExecutorImpl =
  m_symbol :: Symbol
  m_baseAsset :: Asset
  m_quoteAsset :: Asset
  m_book :: "book_ptr option"
  m_lastOrderSendTime :: TimestampNs

text \<open>The closures the simulator posts to the event dispatcher, with their captures.\<close>

datatype LPEvent =
  ProcessEvent Order
| FillEvent OrderId Quantity Quantity
| OrderDoneEvent OrderId DoneStatus

text \<open>What an executor delivers to its observer and to the positions publisher.\<close>

datatype Notification =
  OnAck Symbol OrderId Side Price Quantity TIF
| OnFill Symbol OrderId Quantity Quantity
| OnTerminated Symbol OrderId DoneStatus
| PublishPosition Asset
| PositionsEndBatch

definition isPriceImprovementEnabled :: bool where
  "isPriceImprovementEnabled = True"

text \<open>\<open>priceTolerance\<close> is the double nearest to \<open>1e-8\<close>.\<close>

definition priceTolerance :: Price where
  "priceTolerance = Fin False 6044629098073146 (- 79)"

fun slot_update ::
  "Asset \<Rightarrow> (Position \<Rightarrow> Position) \<Rightarrow> (Asset \<times> Position) list \<Rightarrow> (Asset \<times> Position) list"
where
  "slot_update a f [] = []"
| "slot_update a f ((k, v) # ps) =
     (if k = a then (k, f v) # ps else (k, v) # slot_update a f ps)"

text \<open>
  \<open>m_positions[asset]\<close>: the slot is created, holding \<open>0.0\<close>, when it is absent.
  The standard leaves open where a new key appears in the iteration of a
  \<open>std::unordered_map\<close>; libstdc++ links a new node at the front of its element list,
  so the new slot is iterated first.
  \<open>createExecutor\<close> is the constructor of \<open>ExecutorImpl\<close>: it fails where
  \<open>getQuoteAsset\<close> throws; the entries it creates in the positions publisher are not
  part of the state modelled here.
\<close>

definition getPosition :: "Asset \<Rightarrow> (Asset \<times> Position) list \<Rightarrow> (Asset \<times> Position) list" where
  "getPosition asset ps =
     (if asset \<in> fst ` set ps then ps else (asset, Fin False 0 (- 1074)) # ps)"

definition createExecutor :: "Impl \<Rightarrow> Symbol \<Rightarrow> (Impl \<times> ExecutorImpl) option" where
  "createExecutor svc smb =
     (case getQuoteAsset smb of
        None \<Rightarrow> None
      | Some q \<Rightarrow>
          Some (svc\<lparr>m_positions := getPosition q (getPosition (getBaseAsset smb) (m_positions svc))\<rparr>,
                \<lparr>m_symbol = smb, m_baseAsset = getBaseAsset smb, m_quoteAsset = q,
                 m_book = None, m_lastOrderSendTime = 0\<rparr>))"

definition Impl_getNOP :: "MarketData \<Rightarrow> Impl \<Rightarrow> Quantity" where
  "Impl_getNOP md svc = getNOP (getFairPrice md) (m_positions svc)"

definition getNextOrderId :: "Impl \<Rightarrow> OrderId \<times> Impl" where
  "getNextOrderId svc =
     (m_lastOrderId svc + 1, svc\<lparr>m_lastOrderId := m_lastOrderId svc + 1\<rparr>)"

definition sendOrder ::
  "MarketData \<Rightarrow> Impl \<Rightarrow> ExecutorImpl \<Rightarrow> Side \<Rightarrow> Price \<Rightarrow> Quantity \<Rightarrow> TIF \<Rightarrow>
     OrderId \<times> Impl \<times> ExecutorImpl \<times> (TimestampNs \<times> LPEvent) list"
where
  "sendOrder md svc ex sd pr q t =
     (let ex' = (if m_book ex = None then ex\<lparr>m_book := getCachedRecord md (m_symbol ex)\<rparr> else ex)
      in case getNextOrderId svc of
        (oid, svc') \<Rightarrow>
          (oid, svc', ex',
           [(inboundDelay (m_settings svc'),
             ProcessEvent \<lparr>orderId = oid, side = sd, price = pr, qty = q, tif = t\<rparr>)]))"

definition validateOrder :: "TimestampNs \<Rightarrow> Impl \<Rightarrow> ExecutorImpl \<Rightarrow> Order \<Rightarrow> bool" where
  "validateOrder now svc ex order =
     (m_book ex \<noteq> None \<and>
      tif order = IOC \<and>
      dless (double_of_int 0) (qty order) \<and>
      sint (minOrderGap (m_settings svc)) \<le> sint (now - m_lastOrderSendTime ex))"

definition validateNOPChange ::
  "MarketData \<Rightarrow> Impl \<Rightarrow> ExecutorImpl \<Rightarrow> Quantity \<Rightarrow> Quantity \<Rightarrow> bool \<times> Impl"
where
  "validateNOPChange md svc ex dealt contra =
     (if isnan dealt \<or> isnan contra then (False, svc)
      else
        let currentNOP = Impl_getNOP md svc;
            svc1 = svc\<lparr>m_positions := slot_update (m_baseAsset ex) (\<lambda>p. dadd p dealt) (m_positions svc)\<rparr>;
            svc2 = svc1\<lparr>m_positions := slot_update (m_quoteAsset ex) (\<lambda>p. dadd p contra) (m_positions svc1)\<rparr>;
            newNOP = Impl_getNOP md svc2;
            svc3 = svc2\<lparr>m_positions := slot_update (m_baseAsset ex) (\<lambda>p. dsub p dealt) (m_positions svc2)\<rparr>;
            svc4 = svc3\<lparr>m_positions := slot_update (m_quoteAsset ex) (\<lambda>p. dsub p contra) (m_positions svc3)\<rparr>
        in (dless newNOP currentNOP \<or> dle newNOP (maxNOP (m_settings svc)), svc4))"

text \<open>The locals of \<open>agress\<close>, named as in the source.\<close>

definition no_cross :: "Order \<Rightarrow> Price \<Rightarrow> bool" where
  "no_cross order topPrice =
     (isnan topPrice \<or>
      dless (dmul (price order) (double_of_int (sideToSign (side order))))
            (dsub (dmul topPrice (double_of_int (sideToSign (side order)))) priceTolerance))"

definition matchedPrice :: "Order \<Rightarrow> Price \<Rightarrow> Price" where
  "matchedPrice order topPrice =
     (if isnan (price order) \<or> isPriceImprovementEnabled then topPrice else price order)"

definition matchedQty :: "Order \<Rightarrow> Quantity \<Rightarrow> Quantity" where
  "matchedQty order qtyAtTop = std_min qtyAtTop (qty order)"

definition dealt_of :: "Order \<Rightarrow> Quantity \<Rightarrow> Quantity" where
  "dealt_of order qtyAtTop =
     dmul (double_of_int (sideToSign (side order))) (matchedQty order qtyAtTop)"

definition contra_of :: "Order \<Rightarrow> Quantity \<Rightarrow> Price \<Rightarrow> Quantity" where
  "contra_of order qtyAtTop topPrice =
     dmul (dneg (dealt_of order qtyAtTop)) (matchedPrice order topPrice)"

definition agress ::
  "MarketData \<Rightarrow> Impl \<Rightarrow> ExecutorImpl \<Rightarrow> Order \<Rightarrow> Quantity \<Rightarrow> Price \<Rightarrow>
     DoneStatus \<times> Impl \<times> (TimestampNs \<times> LPEvent) list"
where
  "agress md svc ex order qtyAtTop topPrice =
     (if no_cross order topPrice then (Done, svc, [])
      else if dless (double_of_int 0) (matchedQty order qtyAtTop) then
        (case validateNOPChange md svc ex (dealt_of order qtyAtTop) (contra_of order qtyAtTop topPrice) of
           (ok, svc') \<Rightarrow>
             if \<not> ok then (InternalReject, svc', [])
             else (Done, svc',
                   [(outboundDelay (m_settings svc'),
                     FillEvent (orderId order) (dealt_of order qtyAtTop)
                       (contra_of order qtyAtTop topPrice))]))
      else (Done, svc, []))"

definition qtyAtTop_of :: "Order \<Rightarrow> TopOfBook \<Rightarrow> Quantity" where
  "qtyAtTop_of order bk = (if side order = Buy then askSize bk else bidSize bk)"

definition topPrice_of :: "Order \<Rightarrow> TopOfBook \<Rightarrow> Price" where
  "topPrice_of order bk = (if side order = Buy then askPrice bk else bidPrice bk)"

text \<open>
  \<open>process\<close> runs at the dispatcher's time \<open>now\<close>.  It returns the service, the
  executor, what the observer received and the events posted, each with the delta passed
  to \<open>postEvent\<close>, in posting order.  \<open>validateOrder\<close> is false for a null \<open>m_book\<close>.
\<close>

definition process ::
  "MarketData \<Rightarrow> TimestampNs \<Rightarrow> Impl \<Rightarrow> ExecutorImpl \<Rightarrow> Order \<Rightarrow>
     Impl \<times> ExecutorImpl \<times> Notification list \<times> (TimestampNs \<times> LPEvent) list"
where
  "process md now svc ex order =
     (let ack = OnAck (m_symbol ex) (orderId order) (side order) (price order) (qty order) (tif order);
          reject = (svc, ex, [ack],
                    [(outboundDelay (m_settings svc), OrderDoneEvent (orderId order) InternalReject)])
      in case m_book ex of
        None \<Rightarrow> reject
      | Some p \<Rightarrow>
          if validateOrder now svc ex order then
            (let ex' = ex\<lparr>m_lastOrderSendTime := now\<rparr>;
                 qtyAtTop = qtyAtTop_of order (md_memory md p);
                 topPrice = topPrice_of order (md_memory md p)
             in case agress md svc ex' order qtyAtTop topPrice of
               (doneStatus, svc', posted) \<Rightarrow>
                 (svc', ex', [ack],
                  posted @ [(outboundDelay (m_settings svc'), OrderDoneEvent (orderId order) doneStatus)]))
          else reject)"

text \<open>The closure of \<open>enqueueFill\<close> and the closure of \<open>enqueOrderDone\<close>, when they run.\<close>

definition fill_event ::
  "Impl \<Rightarrow> ExecutorImpl \<Rightarrow> OrderId \<Rightarrow> Quantity \<Rightarrow> Quantity \<Rightarrow> Impl \<times> Notification list"
where
  "fill_event svc ex oid dealt contra =
     (let svc1 = svc\<lparr>m_positions := slot_update (m_baseAsset ex) (\<lambda>p. dadd p dealt) (m_positions svc)\<rparr>;
          svc2 = svc1\<lparr>m_positions := slot_update (m_quoteAsset ex) (\<lambda>p. dadd p contra) (m_positions svc1)\<rparr>
      in (svc2,
          [PublishPosition (m_baseAsset ex), PublishPosition (m_quoteAsset ex),
           OnFill (m_symbol ex) oid dealt contra, PositionsEndBatch]))"

definition order_done_event :: "ExecutorImpl \<Rightarrow> OrderId \<Rightarrow> DoneStatus \<Rightarrow> Notification list" where
  "order_done_event ex oid status = [OnTerminated (m_symbol ex) oid status]"

section \<open>pub_internal.hpp: DirectConsumer\<close>

text \<open>
  A \<open>Callback\<close> is a \<open>std::function\<close>: empty (equal to \<open>nullptr\<close>), the no-op lambda
  that \<open>getCreateEntry\<close> installs in a new entry, or a callable passed to \<open>subscribe\<close>,
  identified by a number.  Records are referred to by address.
\<close>

type_synonym record_ptr = nat

datatype Callback = EmptyCallback | InitialNoOp | Subscribed nat

record Entry =
  m_topic :: string
  m_data :: "record_ptr option"
  m_callback :: Callback

record DirectConsumer =
  m_updates_received :: bool
  m_entries :: "string \<rightharpoonup> Entry"

text \<open>What the consumer delivers: to its subscriber, or to the callback of an entry.\<close>

datatype Delivery =
  Notify string record_ptr
| Invoke Callback string record_ptr
| EndOfBatch

definition DirectConsumer_init :: DirectConsumer where
  "DirectConsumer_init = \<lparr>m_updates_received = False, m_entries = Map.empty\<rparr>"

text \<open>
  \<open>Entry::publish\<close> on the entry of a topic.  \<open>None\<close> is the failed \<open>assert(m_data)\<close>,
  or the absence of any entry to call it on.
\<close>

definition Entry_publish :: "DirectConsumer \<Rightarrow> string \<Rightarrow> (DirectConsumer \<times> Delivery list) option" where
  "Entry_publish dc topic =
     (case m_entries dc topic of
        None \<Rightarrow> None
      | Some e \<Rightarrow>
          (case m_data e of
             None \<Rightarrow> None
           | Some d \<Rightarrow>
               if m_callback e \<noteq> EmptyCallback
               then Some (dc\<lparr>m_updates_received := True\<rparr>, [Invoke (m_callback e) (m_topic e) d])
               else Some (dc, [])))"

definition getCreateEntry :: "DirectConsumer \<Rightarrow> string \<Rightarrow> record_ptr \<Rightarrow> DirectConsumer" where
  "getCreateEntry dc topic d =
     (case m_entries dc topic of
        None \<Rightarrow>
          dc\<lparr>m_entries := (m_entries dc)(topic \<mapsto>
               \<lparr>m_topic = topic, m_data = Some d, m_callback = InitialNoOp\<rparr>)\<rparr>
      | Some e \<Rightarrow> dc\<lparr>m_entries := (m_entries dc)(topic \<mapsto> e\<lparr>m_data := Some d\<rparr>)\<rparr>)"

definition createEntry :: "DirectConsumer \<Rightarrow> string \<Rightarrow> record_ptr \<Rightarrow> DirectConsumer \<times> Delivery list" where
  "createEntry dc topic d = (getCreateEntry dc topic d, [Notify topic d])"

definition endBatch :: "DirectConsumer \<Rightarrow> DirectConsumer \<times> Delivery list" where
  "endBatch dc =
     (if m_updates_received dc then (dc\<lparr>m_updates_received := False\<rparr>, [EndOfBatch])
      else (dc\<lparr>m_updates_received := False\<rparr>, []))"

definition subscribe :: "DirectConsumer \<Rightarrow> string \<Rightarrow> Callback \<Rightarrow> DirectConsumer" where
  "subscribe dc topic cb =
     (case m_entries dc topic of
        Some e \<Rightarrow> dc\<lparr>m_entries := (m_entries dc)(topic \<mapsto> e\<lparr>m_callback := cb\<rparr>)\<rparr>
      | None \<Rightarrow>
          dc\<lparr>m_entries := (m_entries dc)(topic \<mapsto>
               \<lparr>m_topic = topic, m_data = None, m_callback = cb\<rparr>)\<rparr>)"

text \<open>
  The calls made on a consumer, by its producer and by its subscriber; a \<open>subscribe\<close>
  made from inside \<open>notify\<close> is the call that follows the \<open>createEntry\<close>.
\<close>

datatype ConsumerCall =
  CreateEntry string record_ptr
| Subscribe string Callback
| Publish string
| EndBatch

fun consumer_call :: "DirectConsumer \<Rightarrow> ConsumerCall \<Rightarrow> (DirectConsumer \<times> Delivery list) option" where
  "consumer_call dc (CreateEntry topic d) = Some (createEntry dc topic d)"
| "consumer_call dc (Subscribe topic cb) = Some (subscribe dc topic cb, [])"
| "consumer_call dc (Publish topic) = Entry_publish dc topic"
| "consumer_call dc EndBatch = Some (endBatch dc)"

fun consumer_calls :: "DirectConsumer \<Rightarrow> ConsumerCall list \<Rightarrow> (DirectConsumer \<times> Delivery list) option" where
  "consumer_calls dc [] = Some (dc, [])"
| "consumer_calls dc (c # cs) =
     (case consumer_call dc c of
        None \<Rightarrow> None
      | Some (dc1, out1) \<Rightarrow>
          (case consumer_calls dc1 cs of
             None \<Rightarrow> None
           | Some (dc2, out2) \<Rightarrow> Some (dc2, out1 @ out2)))"

fun is_invoke :: "Delivery \<Rightarrow> bool" where
  "is_invoke (Invoke cb topic d) = True"
| "is_invoke _ = False"

fun is_subscribed_invoke :: "Delivery \<Rightarrow> bool" where
  "is_subscribed_invoke (Invoke (Subscribed n) topic d) = True"
| "is_subscribed_invoke _ = False"

text \<open>What a run of calls delivers, and what an \<open>endBatch\<close> after it delivers.\<close>

definition deliveries_of :: "DirectConsumer \<Rightarrow> ConsumerCall list \<Rightarrow> Delivery list option" where
  "deliveries_of dc cs = map_option snd (consumer_calls dc cs)"

definition endBatch_after :: "DirectConsumer \<Rightarrow> ConsumerCall list \<Rightarrow> Delivery list option" where
  "endBatch_after dc cs =
     (case consumer_calls dc cs of
        None \<Rightarrow> None
      | Some (dc', out) \<Rightarrow> Some (snd (endBatch dc')))"


section \<open>event_loop.cpp: the event loop\<close>

text \<open>
  An event is a closure.  The loop is generic in the closures of its users, of type
  \<open>'e\<close>: running one at time \<open>t\<close> in a world \<open>w\<close> gives the new world and the calls the
  closure made on the loop, in order (\<open>exec e t w\<close>).  The closure that \<open>stop\<close> posts
  is the loop's own.  The dispatcher of a replayable is such a user: its closure runs
  \<open>dispatchNextEvent\<close> and then calls \<open>postEvent\<close> with \<open>next - now\<close> clamped at 0, or
  \<open>stop(0)\<close> when the last replayable is done.
\<close>

datatype 'e LoopCall = PostEvent TimestampNs 'e | Stop TimestampNs

datatype 'e Event = UserEvent 'e | StopEvent

record 'e TimedEvent =
  m_eventId :: EventId
  m_expireTime :: TimestampNs
  m_event :: "'e Event"

text \<open>
  \<open>m_futureEvents\<close> is the priority queue, kept as the list of its events in the order
  they will be popped; events with the same expiry and the same id (two \<open>stop\<close>
  closures) are popped in the order they were pushed, where the source leaves the order
  to the heap.  Two fields are not in the source: \<open>clock_history\<close> lists the
  values assigned to \<open>m_now\<close> since construction, latest first, and \<open>signed_overflow\<close>
  records that some \<open>getEventTime() + deltaTimeNs\<close> left the range of \<open>int64_t\<close>
  (undefined behaviour in C++; the sum is taken modulo \<open>2^64\<close> here).
\<close>

record 'e EventLoop =
  m_now :: TimestampNs
  m_futureEvents :: "'e TimedEvent list"
  m_chores :: "(EventId \<times> 'e Event) list"
  m_lastEventId :: EventId
  m_enable :: bool
  clock_history :: "TimestampNs list"
  signed_overflow :: bool

definition EventLoop_init :: "TimestampNs \<Rightarrow> 'e EventLoop" where
  "EventLoop_init start =
     \<lparr>m_now = start, m_futureEvents = [], m_chores = [], m_lastEventId = 0,
      m_enable = True, clock_history = [], signed_overflow = False\<rparr>"

definition getEventTime :: "'e EventLoop \<Rightarrow> TimestampNs" where
  "getEventTime s = m_now s"

text \<open>
  \<open>TimedEvent::operator<\<close> is \<open>std::tie(m_expireTime, m_eventId) > std::tie(...)\<close> of the
  other, so the top of the \<open>std::priority_queue\<close> is the event with the least pair:
  \<open>fires_before a b\<close> is that strict order on pairs of signed values.
\<close>

definition fires_before :: "'e TimedEvent \<Rightarrow> 'e TimedEvent \<Rightarrow> bool" where
  "fires_before a b =
     (sint (m_expireTime a) < sint (m_expireTime b) \<or>
      (m_expireTime a = m_expireTime b \<and> sint (m_eventId a) < sint (m_eventId b)))"

fun pq_push :: "'e TimedEvent \<Rightarrow> 'e TimedEvent list \<Rightarrow> 'e TimedEvent list" where
  "pq_push x [] = [x]"
| "pq_push x (y # ys) = (if fires_before x y then x # y # ys else y # pq_push x ys)"

definition addFutureEvent ::
  "TimestampNs \<Rightarrow> 'e Event \<Rightarrow> EventId \<Rightarrow> 'e EventLoop \<Rightarrow> 'e EventLoop"
where
  "addFutureEvent ts ev eid s =
     s\<lparr>m_futureEvents :=
         pq_push \<lparr>m_eventId = eid, m_expireTime = ts, m_event = ev\<rparr> (m_futureEvents s)\<rparr>"

text \<open>\<open>getEventTime() + deltaTimeNs\<close>, with the overflow noted.\<close>

definition note_overflow :: "TimestampNs \<Rightarrow> 'e EventLoop \<Rightarrow> 'e EventLoop" where
  "note_overflow delta s =
     s\<lparr>signed_overflow :=
         signed_overflow s \<or> sint (m_now s + delta) \<noteq> sint (m_now s) + sint delta\<rparr>"

definition stop :: "TimestampNs \<Rightarrow> 'e EventLoop \<Rightarrow> 'e EventLoop" where
  "stop delta s =
     addFutureEvent (m_now s + delta) StopEvent 0x7FFFFFFFFFFFFFFF (note_overflow delta s)"

definition postEvent :: "TimestampNs \<Rightarrow> 'e Event \<Rightarrow> 'e EventLoop \<Rightarrow> 'e EventLoop" where
  "postEvent delta ev s =
     (let eventId = m_lastEventId s + 2;
          s1 = s\<lparr>m_lastEventId := eventId\<rparr>
      in if delta = 0 then s1\<lparr>m_chores := m_chores s1 @ [(eventId, ev)]\<rparr>
         else addFutureEvent (m_now s1 + delta) ev (eventId + 1) (note_overflow delta s1))"

fun loop_call :: "'e EventLoop \<Rightarrow> 'e LoopCall \<Rightarrow> 'e EventLoop" where
  "loop_call s (PostEvent delta e) = postEvent delta (UserEvent e) s"
| "loop_call s (Stop delta) = stop delta s"

fun call_delta :: "'e LoopCall \<Rightarrow> TimestampNs" where
  "call_delta (PostEvent delta e) = delta"
| "call_delta (Stop delta) = delta"

text \<open>Running a closure: the loop's own clears \<open>m_enable\<close>; a user's makes its calls.\<close>

fun run_event ::
  "('e \<Rightarrow> TimestampNs \<Rightarrow> 'w \<Rightarrow> 'w \<times> 'e LoopCall list) \<Rightarrow> 'e Event \<Rightarrow>
     'e EventLoop \<times> 'w \<Rightarrow> 'e EventLoop \<times> 'w"
where
  "run_event exec StopEvent (s, w) = (s\<lparr>m_enable := False\<rparr>, w)"
| "run_event exec (UserEvent e) (s, w) =
     (case exec e (m_now s) w of (w', calls) \<Rightarrow> (foldl loop_call s calls, w'))"

text \<open>
  The loops of \<open>dispatch\<close> need not end, so they run on fuel: \<open>OutOfFuel\<close> carries the
  state reached when it ran out, \<open>Finished\<close> the state at the loop's exit.
\<close>

datatype 'a outcome = Finished 'a | OutOfFuel 'a

fun outcome_state :: "'a outcome \<Rightarrow> 'a" where
  "outcome_state (Finished x) = x"
| "outcome_state (OutOfFuel x) = x"

fun dispatchChores ::
  "('e \<Rightarrow> TimestampNs \<Rightarrow> 'w \<Rightarrow> 'w \<times> 'e LoopCall list) \<Rightarrow> nat \<Rightarrow>
     'e EventLoop \<times> 'w \<Rightarrow> ('e EventLoop \<times> 'w) outcome"
where
  "dispatchChores exec 0 (s, w) =
     (if m_enable s \<and> m_chores s \<noteq> [] then OutOfFuel (s, w) else Finished (s, w))"
| "dispatchChores exec (Suc n) (s, w) =
     (if m_enable s then
        (case m_chores s of
           [] \<Rightarrow> Finished (s, w)
         | c # cs \<Rightarrow> dispatchChores exec n (run_event exec (snd c) (s\<lparr>m_chores := cs\<rparr>, w)))
      else Finished (s, w))"

definition dispatchNextFutureEvent ::
  "('e \<Rightarrow> TimestampNs \<Rightarrow> 'w \<Rightarrow> 'w \<times> 'e LoopCall list) \<Rightarrow>
     'e EventLoop \<times> 'w \<Rightarrow> 'e EventLoop \<times> 'w"
where
  "dispatchNextFutureEvent exec sw =
     (case sw of (s, w) \<Rightarrow>
        if m_enable s then
          (case m_futureEvents s of
             [] \<Rightarrow> (s, w)
           | ev # rest \<Rightarrow>
               run_event exec (m_event ev)
                 (s\<lparr>m_futureEvents := rest, m_now := m_expireTime ev,
                    clock_history := m_expireTime ev # clock_history s\<rparr>, w))
        else (s, w))"

fun dispatch_loop ::
  "('e \<Rightarrow> TimestampNs \<Rightarrow> 'w \<Rightarrow> 'w \<times> 'e LoopCall list) \<Rightarrow> nat \<Rightarrow>
     'e EventLoop \<times> 'w \<Rightarrow> ('e EventLoop \<times> 'w) outcome"
where
  "dispatch_loop exec 0 (s, w) =
     (if m_enable s \<and> (m_futureEvents s \<noteq> [] \<or> m_chores s \<noteq> []) then OutOfFuel (s, w)
      else Finished (s, w))"
| "dispatch_loop exec (Suc n) (s, w) =
     (if m_enable s \<and> (m_futureEvents s \<noteq> [] \<or> m_chores s \<noteq> []) then
        (case dispatchChores exec n (s, w) of
           OutOfFuel sw \<Rightarrow> OutOfFuel sw
         | Finished sw \<Rightarrow> dispatch_loop exec n (dispatchNextFutureEvent exec sw))
      else Finished (s, w))"

text \<open>\<open>EventLoop::dispatch()\<close> is \<open>m_impl->dispatch(true)\<close>: it fast-forwards first.\<close>

definition dispatch ::
  "('e \<Rightarrow> TimestampNs \<Rightarrow> 'w \<Rightarrow> 'w \<times> 'e LoopCall list) \<Rightarrow> nat \<Rightarrow>
     'e EventLoop \<times> 'w \<Rightarrow> ('e EventLoop \<times> 'w) outcome"
where
  "dispatch exec fuel sw =
     (case sw of (s, w) \<Rightarrow>
        dispatch_loop exec fuel
          (case m_futureEvents s of
             [] \<Rightarrow> s\<lparr>m_enable := True\<rparr>
           | ev # rest \<Rightarrow>
               s\<lparr>m_enable := True, m_now := m_expireTime ev,
                 clock_history := m_expireTime ev # clock_history s\<rparr>, w))"

text \<open>
  What the code around the loop does with it: calls of \<open>postEvent\<close> and \<open>stop\<close>, and
  calls of \<open>dispatch\<close>, each with its fuel.  Nothing follows a \<open>dispatch\<close> that has not
  returned.
\<close>

datatype 'e LoopOp = Call "'e LoopCall" | Dispatch nat

fun loop_ops ::
  "('e \<Rightarrow> TimestampNs \<Rightarrow> 'w \<Rightarrow> 'w \<times> 'e LoopCall list) \<Rightarrow> 'e LoopOp list \<Rightarrow>
     'e EventLoop \<times> 'w \<Rightarrow> ('e EventLoop \<times> 'w) outcome"
where
  "loop_ops exec [] sw = Finished sw"
| "loop_ops exec (Call c # ops) (s, w) = loop_ops exec ops (loop_call s c, w)"
| "loop_ops exec (Dispatch fuel # ops) sw =
     (case dispatch exec fuel sw of
        OutOfFuel sw' \<Rightarrow> OutOfFuel sw'
      | Finished sw' \<Rightarrow> loop_ops exec ops sw')"

fun op_nonneg :: "'e LoopOp \<Rightarrow> bool" where
  "op_nonneg (Call c) = (0 \<le> sint (call_delta c))"
| "op_nonneg (Dispatch fuel) = True"

text \<open>The clock's values in time order: the start, then each assignment.\<close>

definition clock_values :: "TimestampNs \<Rightarrow> 'e EventLoop \<Rightarrow> int list" where
  "clock_values start s = map sint (start # rev (clock_history s))"

text \<open>
  The invariant: unless an overflow was noted, the clock's history is non-increasing
  towards the past and starts at the current time, no queued future event expires before
  the current time, and the queue is in non-decreasing order of expiry.
\<close>

definition clock_inv :: "TimestampNs \<Rightarrow> 'e EventLoop \<Rightarrow> bool" where
  "clock_inv start s =
     (signed_overflow s \<or>
      (sorted_wrt (\<lambda>a b. sint b \<le> sint a) (clock_history s @ [start]) \<and>
       hd (clock_history s @ [start]) = m_now s \<and>
       (\<forall>ev \<in> set (m_futureEvents s). sint (m_now s) \<le> sint (m_expireTime ev)) \<and>
       sorted_wrt (\<lambda>a b. sint (m_expireTime a) \<le> sint (m_expireTime b)) (m_futureEvents s)))"

definition nonneg_exec :: "('e \<Rightarrow> TimestampNs \<Rightarrow> 'w \<Rightarrow> 'w \<times> 'e LoopCall list) \<Rightarrow> bool" where
  "nonneg_exec exec = (\<forall>e t w. \<forall>c \<in> set (snd (exec e t w)). 0 \<le> sint (call_delta c))"

section \<open>market_data_replayer.cpp: the replayer\<close>

text \<open>
  \<open>m_nextLine\<close> is the lookahead.  The input stream is the list of its lines not yet
  read, each already split at the commas and converted: \<open>std::stoull\<close> gives the
  timestamp as a 64-bit value, which \<open>std::chrono::nanoseconds\<close> reads as a signed
  count, and \<open>std::stod\<close> gives the four doubles.  A line that does not convert makes the
  source throw and is not modelled.
\<close>

record NextLine =
  timestamp :: TimestampNs
  symbol :: Symbol
  book :: TopOfBook

text \<open>
  The calls made on the \<open>pub::Publisher\<close>: \<open>createEntry\<close> with the stored record,
  \<open>publish\<close> on the entry of a symbol (with the value its record then holds), and
  \<open>endBatch\<close>.
\<close>

datatype PublisherCall =
  CreateEntryCall Symbol TopOfBook
| PublishCall Symbol TopOfBook
| EndBatchCall

record Replayer =
  m_inputData :: "NextLine list"
  m_records :: "Symbol \<rightharpoonup> TopOfBook"
  m_nextLine :: NextLine

definition getNextEventTime :: "Replayer \<Rightarrow> TimestampNs" where
  "getNextEventTime r = timestamp (m_nextLine r)"

definition readNextLine :: "Replayer \<Rightarrow> Replayer" where
  "readNextLine r =
     (case m_inputData r of
        [] \<Rightarrow> r\<lparr>m_nextLine := (m_nextLine r)\<lparr>timestamp := TimestampNs_max\<rparr>\<rparr>
      | l # ls \<Rightarrow> r\<lparr>m_nextLine := l, m_inputData := ls\<rparr>)"

text \<open>
  \<open>skip\<close> reads lines while the lookahead is before \<open>ts\<close>.  At the end of the input
  the lookahead is \<open>TimestampNs::max()\<close>, which is before no \<open>ts\<close>, so the loop ends.
\<close>

function skip :: "TimestampNs \<Rightarrow> Replayer \<Rightarrow> Replayer" where
  "skip ts r = (if sint (getNextEventTime r) < sint ts then skip ts (readNextLine r) else r)"
  by pat_completeness auto
termination
proof (relation "measure (\<lambda>(ts, r). 2 * length (m_inputData r) +
                   (if sint (getNextEventTime r) < sint ts then 1 else 0))")
  show "wf (measure (\<lambda>(ts, r). 2 * length (m_inputData r) +
                   (if sint (getNextEventTime r) < sint ts then 1 else 0)))"
    by simp
next
  fix ts :: TimestampNs and r :: Replayer
  assume a: "sint (getNextEventTime r) < sint ts"
  have top: "\<not> sint TimestampNs_max < sint ts"
    using sint_lt [of ts] by (simp add: TimestampNs_max_def)
  show "((ts, readNextLine r), (ts, r)) \<in> measure (\<lambda>(ts, r). 2 * length (m_inputData r) +
                   (if sint (getNextEventTime r) < sint ts then 1 else 0))"
    using a top by (cases "m_inputData r") (simp_all add: readNextLine_def getNextEventTime_def)
qed

declare skip.simps [simp del]

text \<open>
  The constructor reads the first line and adds the replayer to the event loop, whose
  \<open>ReplayableDispatcher\<close> starts with \<open>skip(now)\<close>, \<open>now\<close> being the time of the
  loop; the event that the dispatcher posts next is state of the loop, not of the
  replayer.  \<open>EventLoop::add\<close> throws when the loop already holds its maximum of
  replayables, which is not modelled.
\<close>

definition Replayer_init :: "TimestampNs \<Rightarrow> NextLine list \<Rightarrow> Replayer" where
  "Replayer_init now input =
     skip now (readNextLine
       \<lparr>m_inputData = input, m_records = Map.empty,
        m_nextLine = \<lparr>timestamp = 0, symbol = [],
          book = \<lparr>bidSize = Fin False 0 (- 1074), bidPrice = Fin False 0 (- 1074),
                  askSize = Fin False 0 (- 1074), askPrice = Fin False 0 (- 1074)\<rparr>\<rparr>\<rparr>)"

definition publish :: "Replayer \<Rightarrow> Replayer \<times> PublisherCall list" where
  "publish r =
     (let smb = symbol (m_nextLine r); bk = book (m_nextLine r)
      in case m_records r smb of
        None \<Rightarrow>
          (r\<lparr>m_records := (m_records r)(smb \<mapsto> bk)\<rparr>,
           [CreateEntryCall smb bk, PublishCall smb bk])
      | Some old \<Rightarrow>
          (r\<lparr>m_records := (m_records r)(smb \<mapsto> bk)\<rparr>, [PublishCall smb bk]))"

text \<open>
  The \<open>do ... while (getNextEventTime() == startTime)\<close> loop, with the calls made so
  far.  As written it would not end for \<open>startTime = TimestampNs::max()\<close> at the end of
  the input, so it is a partial function: \<open>None\<close> is not returning.
\<close>

partial_function (option) dispatch_records ::
  "TimestampNs \<Rightarrow> Replayer \<Rightarrow> PublisherCall list \<Rightarrow> (Replayer \<times> PublisherCall list) option"
where
  "dispatch_records startTime r calls =
     (case publish r of
        (r1, out1) \<Rightarrow>
          if getNextEventTime (readNextLine r1) = startTime
          then dispatch_records startTime (readNextLine r1) (calls @ out1)
          else Some (readNextLine r1, calls @ out1))"

definition dispatchNextEvent :: "Replayer \<Rightarrow> (Replayer \<times> PublisherCall list) option" where
  "dispatchNextEvent r =
     (if sint (getNextEventTime r) < sint TimestampNs_max
      then (case dispatch_records (getNextEventTime r) r [] of
              None \<Rightarrow> None
            | Some (r', calls) \<Rightarrow> Some (r', calls @ [EndBatchCall]))
      else Some (r, []))"

fun is_publish :: "PublisherCall \<Rightarrow> bool" where
  "is_publish (PublishCall smb bk) = True"
| "is_publish _ = False"

text \<open>What one \<open>dispatchNextEvent\<close> calls on the publisher, and the next event time after it.\<close>

definition calls_of_dispatch :: "Replayer \<Rightarrow> PublisherCall list option" where
  "calls_of_dispatch r = map_option snd (dispatchNextEvent r)"

definition time_after_dispatch :: "Replayer \<Rightarrow> TimestampNs option" where
  "time_after_dispatch r =
     (case dispatchNextEvent r of None \<Rightarrow> None | Some (r', calls) \<Rightarrow> Some (getNextEventTime r'))"

section \<open>The NOP gate as the specification words it\<close>

text \<open>
  Follows the specification's sentence, not the code: add \<open>(dealt, contra)\<close> to the base
  and quote positions, compute the new NOP, and accept if
  \<open>newNOP < currentNOP\<close> or \<open>newNOP \<le> maxNOP\<close>.  It is compared with
  \<open>validateNOPChange\<close> below.
\<close>

definition spec_nop_gate ::
  "MarketData \<Rightarrow> Impl \<Rightarrow> ExecutorImpl \<Rightarrow> Quantity \<Rightarrow> Quantity \<Rightarrow> bool"
where
  "spec_nop_gate md svc ex dealt contra =
     (let currentNOP = getNOP (getFairPrice md) (m_positions svc);
          tentative = slot_update (m_quoteAsset ex) (\<lambda>p. dadd p contra)
                        (slot_update (m_baseAsset ex) (\<lambda>p. dadd p dealt) (m_positions svc));
          newNOP = getNOP (getFairPrice md) tentative
      in dless newNOP currentNOP \<or> dle newNOP (maxNOP (m_settings svc)))"

section \<open>The batch rule of a DirectConsumer as the specification words it\<close>

text \<open>
  Follows the sentence, not the code of \<open>Entry::publish\<close>: which callback a topic holds is
  read off the calls alone (\<open>createEntry\<close> gives a topic that has no entry the no-op
  lambda, \<open>subscribe\<close> sets the callback), and a \<open>publish\<close> counts when the callback
  of its topic is not an empty \<open>std::function\<close>.  \<open>spec_nonempty_publish\<close> says that
  some \<open>publish\<close> among the calls counts; it is compared with \<open>consumer_calls\<close> below.
\<close>

definition callbacks_of :: "DirectConsumer \<Rightarrow> (string \<rightharpoonup> Callback)" where
  "callbacks_of dc = (\<lambda>topic. map_option m_callback (m_entries dc topic))"

fun spec_callbacks_after :: "(string \<rightharpoonup> Callback) \<Rightarrow> ConsumerCall \<Rightarrow> (string \<rightharpoonup> Callback)" where
  "spec_callbacks_after cbs (CreateEntry topic d) =
     (case cbs topic of None \<Rightarrow> cbs(topic \<mapsto> InitialNoOp) | Some cb \<Rightarrow> cbs)"
| "spec_callbacks_after cbs (Subscribe topic cb) = cbs(topic \<mapsto> cb)"
| "spec_callbacks_after cbs (Publish topic) = cbs"
| "spec_callbacks_after cbs EndBatch = cbs"

fun spec_publish_counts :: "(string \<rightharpoonup> Callback) \<Rightarrow> ConsumerCall \<Rightarrow> bool" where
  "spec_publish_counts cbs (Publish topic) =
     (case cbs topic of None \<Rightarrow> False | Some cb \<Rightarrow> cb \<noteq> EmptyCallback)"
| "spec_publish_counts cbs (CreateEntry topic d) = False"
| "spec_publish_counts cbs (Subscribe topic cb) = False"
| "spec_publish_counts cbs EndBatch = False"

fun spec_nonempty_publish :: "(string \<rightharpoonup> Callback) \<Rightarrow> ConsumerCall list \<Rightarrow> bool" where
  "spec_nonempty_publish cbs [] = False"
| "spec_nonempty_publish cbs (c # cs) =
     (if spec_publish_counts cbs c then True
      else spec_nonempty_publish (spec_callbacks_after cbs c) cs)"

section \<open>Example states\<close>

text \<open>A EUR/USD book quoted at 1.0 on both sides and a simulator trading it.\<close>

definition ex_book :: TopOfBook where
  "ex_book = \<lparr>bidSize = double_of_int 1000000, bidPrice = double_of_int 1,
               askSize = double_of_int 1000000, askPrice = double_of_int 1\<rparr>"

definition ex_md :: MarketData where
  "ex_md = \<lparr>md_cache = [''EUR/USD'' \<mapsto> 0], md_memory = (\<lambda>_. ex_book)\<rparr>"

definition ex_settings :: Settings where
  "ex_settings = \<lparr>inboundDelay = 1000000, outboundDelay = 1000000,
                   minOrderGap = 10000000000, maxNOP = double_of_int 10000000\<rparr>"

definition ex_svc :: Impl where
  "ex_svc = \<lparr>m_positions = [(''EUR'', Fin False 0 (- 1074)), (''USD'', Fin False 0 (- 1074))],
              m_settings = ex_settings, m_lastOrderId = 0\<rparr>"

definition ex_executor :: ExecutorImpl where
  "ex_executor = \<lparr>m_symbol = ''EUR/USD'', m_baseAsset = ''EUR'', m_quoteAsset = ''USD'',
                   m_book = None, m_lastOrderSendTime = 0\<rparr>"

definition ready_executor :: ExecutorImpl where
  "ready_executor = ex_executor\<lparr>m_book := Some 0\<rparr>"

definition ex_now :: TimestampNs where
  "ex_now = 10000000000"

definition market_order :: "Side \<Rightarrow> Quantity \<Rightarrow> Order" where
  "market_order sd q = \<lparr>orderId = 1, side = sd, price = NaN, qty = q, tif = IOC\<rparr>"

text \<open>A book whose ask size is NaN, and one whose bid is an infinite size at price 0.\<close>

definition nan_size_md :: MarketData where
  "nan_size_md = \<lparr>md_cache = [''EUR/USD'' \<mapsto> 0],
                   md_memory = (\<lambda>_. ex_book\<lparr>askSize := NaN\<rparr>)\<rparr>"

definition inf_bid_book :: TopOfBook where
  "inf_bid_book = \<lparr>bidSize = Inf False, bidPrice = Fin False 0 (- 1074),
                    askSize = double_of_int 1000000, askPrice = double_of_int 1\<rparr>"

definition inf_bid_md :: MarketData where
  "inf_bid_md = \<lparr>md_cache = [''EUR/USD'' \<mapsto> 0], md_memory = (\<lambda>_. inf_bid_book)\<rparr>"

text \<open>A simulator whose NOP cap is 0.15, and the doubles nearest to 0.1 and 0.2.\<close>

definition tight_svc :: Impl where
  "tight_svc =
     ex_svc\<lparr>m_settings := ex_settings\<lparr>maxNOP := ddiv (double_of_int 15) (double_of_int 100)\<rparr>\<rparr>"

definition tenth :: double where
  "tenth = ddiv (double_of_int 1) (double_of_int 10)"

definition fifth :: double where
  "fifth = ddiv (double_of_int 2) (double_of_int 10)"

definition passive_order :: Order where
  "passive_order = (market_order Buy (double_of_int 5))\<lparr>price := double_of_int 0\<rparr>"

text \<open>A Buy of 5 with limit 2, above the ask of 1.0.\<close>

definition aggressive_order :: Order where
  "aggressive_order = (market_order Buy (double_of_int 5))\<lparr>price := double_of_int 2\<rparr>"

text \<open>The state after a first fill of 0.1 EUR at 1.0, and the executor that sent it.\<close>

definition after_first_fill :: Impl where
  "after_first_fill = fst (fill_event tight_svc ready_executor 1 tenth (dneg tenth))"

definition later_executor :: ExecutorImpl where
  "later_executor = ready_executor\<lparr>m_lastOrderSendTime := ex_now\<rparr>"

text \<open>
  Calls on a fresh consumer: a topic is created and published with the callback left
  as created, with a callback installed by \<open>subscribe\<close>, and with an empty one.
\<close>

definition noop_calls :: "ConsumerCall list" where
  "noop_calls = [CreateEntry ''EUR/USD'' 0, Publish ''EUR/USD'']"

definition subscribed_calls :: "ConsumerCall list" where
  "subscribed_calls =
     [CreateEntry ''EUR/USD'' 0, Subscribe ''EUR/USD'' (Subscribed 1), Publish ''EUR/USD'']"

definition empty_callback_calls :: "ConsumerCall list" where
  "empty_callback_calls =
     [CreateEntry ''EUR/USD'' 0, Subscribe ''EUR/USD'' EmptyCallback, Publish ''EUR/USD'']"

text \<open>
  Closures numbered by \<open>nat\<close>: closure \<open>n + 1\<close> posts closure \<open>n\<close> three nanoseconds
  later and closure \<open>0\<close> as a chore; closure \<open>0\<close> does nothing.
\<close>

definition chain_exec :: "nat \<Rightarrow> TimestampNs \<Rightarrow> unit \<Rightarrow> unit \<times> nat LoopCall list" where
  "chain_exec n t w = (w, if n = 0 then [] else [PostEvent 3 (n - 1), PostEvent 0 0])"

definition forward_ops :: "nat LoopOp list" where
  "forward_ops = [Call (PostEvent 5 2), Call (Stop 20), Dispatch 50]"

definition backward_ops :: "nat LoopOp list" where
  "backward_ops = [Call (PostEvent (- 5) 0), Dispatch 5]"

text \<open>
  A stream of four lines: three at time 100 (EUR/USD, USD/JPY, EUR/USD again) and one at
  time 200.
\<close>

definition ex_lines :: "NextLine list" where
  "ex_lines =
     [\<lparr>timestamp = 100, symbol = ''EUR/USD'', book = ex_book\<rparr>,
      \<lparr>timestamp = 100, symbol = ''USD/JPY'', book = inf_bid_book\<rparr>,
      \<lparr>timestamp = 100, symbol = ''EUR/USD'', book = ex_book\<lparr>askPrice := double_of_int 2\<rparr>\<rparr>,
      \<lparr>timestamp = 200, symbol = ''EUR/USD'', book = ex_book\<rparr>]"


section \<open>Floating-point facts\<close>

text \<open>The two integer helpers are the power of two and the number of binary digits.\<close>

lemma pow2_nonpos: "k \<le> 0 \<Longrightarrow> pow2 k = 1"
  by (subst pow2.simps) simp

lemma pow2_pos:
  "0 < k \<Longrightarrow> pow2 k = (if even k then pow2 (k div 2) * pow2 (k div 2)
                          else 2 * (pow2 (k div 2) * pow2 (k div 2)))"
  by (subst pow2.simps) (simp add: Let_def)

lemma pow2_eq: "pow2 k = 2 ^ nat k"
proof (induction k rule: pow2.induct)
  case (1 k)
  show ?case
  proof (cases "k \<le> 0")
    case True
    then show ?thesis by (simp add: pow2_nonpos)
  next
    case False
    then have h: "pow2 (k div 2) = 2 ^ nat (k div 2)"
      using 1 by simp
    have sq: "pow2 (k div 2) * pow2 (k div 2) = 2 ^ (nat (k div 2) + nat (k div 2))"
      unfolding h by (simp only: power_add)
    show ?thesis
    proof (cases "even k")
      case True
      then have "nat (k div 2) + nat (k div 2) = nat k"
        using False by (auto elim!: evenE)
      moreover have "pow2 k = pow2 (k div 2) * pow2 (k div 2)"
        using False True by (subst pow2_pos) simp_all
      ultimately show ?thesis
        using sq by simp
    next
      case odd: False
      then have "Suc (nat (k div 2) + nat (k div 2)) = nat k"
        using False by (auto elim!: oddE)
      then have "(2 :: int) * 2 ^ (nat (k div 2) + nat (k div 2)) = 2 ^ nat k"
        by (metis power_Suc)
      moreover have "pow2 k = 2 * (pow2 (k div 2) * pow2 (k div 2))"
        using False odd by (subst pow2_pos) simp_all
      ultimately show ?thesis
        using sq by simp
    qed
  qed
qed

lemma bitlen_nonpos: "n \<le> 0 \<Longrightarrow> bitlen n = 0"
  by (subst bitlen.simps) simp

lemma bitlen_pos: "0 < n \<Longrightarrow> bitlen n = 1 + bitlen (n div 2)"
  by (subst bitlen.simps) simp

lemma bitlen_nonneg: "0 \<le> bitlen n"
proof (induction n rule: bitlen.induct)
  case (1 n)
  then show ?case
    by (cases "n \<le> 0") (simp_all add: bitlen_nonpos bitlen_pos)
qed

lemma bitlen_bounds: "0 < n \<Longrightarrow> 2 ^ nat (bitlen n - 1) \<le> n \<and> n < 2 ^ nat (bitlen n)"
proof (induction n rule: bitlen.induct)
  case (1 n)
  show ?case
  proof (cases "n = 1")
    case True
    then show ?thesis
      by (simp add: bitlen_pos bitlen_nonpos)
  next
    case False
    with "1.prems" have pos: "0 < n div 2" by simp
    have b: "bitlen n = 1 + bitlen (n div 2)"
      using "1.prems" by (rule bitlen_pos)
    have ih: "2 ^ nat (bitlen (n div 2) - 1) \<le> n div 2" "n div 2 < 2 ^ nat (bitlen (n div 2))"
      using "1.IH" "1.prems" pos by simp_all
    have bp: "0 < bitlen (n div 2)"
      using bitlen_pos [OF pos] bitlen_nonneg [of "n div 2 div 2"] by simp
    have e1: "nat (bitlen n - 1) = Suc (nat (bitlen (n div 2) - 1))"
      using bp unfolding b by simp
    have e2: "nat (bitlen n) = Suc (nat (bitlen (n div 2)))"
      using bp unfolding b by simp
    show ?thesis
      unfolding e1 e2 using ih by simp linarith
  qed
qed

text \<open>
  Known values of binary64 arithmetic: the doubles nearest to 0.1 and to 1e-8, the sum
  0.1 + 0.2, a tie rounded to even in both directions, a subnormal quotient, overflow
  to infinity, and the signs of zero sums.
\<close>

lemma tenth_value: "tenth = Fin False 7205759403792794 (- 56)"
  by code_simp

lemma priceTolerance_value: "ddiv (double_of_int 1) (double_of_int 100000000) = priceTolerance"
  by code_simp

lemma tenth_plus_fifth: "dadd tenth fifth = Fin False 5404319552844596 (- 54)"
  by code_simp

lemma ties_to_even:
  "double_of_int 9007199254740993 = Fin False 4503599627370496 1"
  "double_of_int 9007199254740995 = Fin False 4503599627370498 1"
  by code_simp+

lemma subnormal_quotient:
  "ddiv (Fin False 4503599627370496 (- 1074)) (double_of_int 3) = Fin False 1501199875790165 (- 1074)"
  by code_simp

lemma overflow_to_infinity:
  "dmul (Fin False 4503599627370496 900) (Fin False 4503599627370496 900) = Inf False"
  by code_simp

lemma zero_sums:
  "dadd (Fin True 0 (- 1074)) (Fin True 0 (- 1074)) = Fin True 0 (- 1074)"
  "dadd (Fin False 0 (- 1074)) (Fin True 0 (- 1074)) = Fin False 0 (- 1074)"
  "dsub tenth tenth = Fin False 0 (- 1074)"
  by code_simp+

lemma isnan_iff: "isnan x \<longleftrightarrow> x = NaN"
  by (cases x) simp_all

lemma round_nearest_even_not_nan: "round_nearest_even s m e \<noteq> NaN"
  by (simp add: round_nearest_even_def Let_def)

lemma dless_nan_right: "dless x NaN = False"
  by (cases x) simp_all

lemma dle_nan_right: "dle x NaN = False"
  by (cases x) simp_all

lemma dless_not_nan: "dless a b \<Longrightarrow> \<not> isnan a \<and> \<not> isnan b"
  by (cases a; cases b) simp_all

lemma double_of_int_1: "double_of_int 1 = Fin False 4503599627370496 (- 52)"
  by code_simp

lemma double_of_int_m1: "double_of_int (- 1) = Fin True 4503599627370496 (- 52)"
  by code_simp

lemma isnan_dmul_sign_left: "isnan (dmul (double_of_int (sideToSign s)) x) = isnan x"
  by (cases s; cases x) (simp_all add: double_of_int_1 double_of_int_m1 round_nearest_even_not_nan isnan_iff)

lemma std_min_nan_left: "isnan a \<Longrightarrow> std_min a b = NaN"
  by (simp add: std_min_def isnan_iff dless_nan_right)

lemma dle_refl: "\<not> isnan a \<Longrightarrow> dle a a"
  by (cases a) (simp_all add: Let_def)

lemma not_dless_dle: "\<not> isnan a \<Longrightarrow> \<not> isnan b \<Longrightarrow> \<not> dless b a \<Longrightarrow> dle a b"
  by (cases a; cases b) (auto simp: Let_def min.commute)

lemma dless_dle: "dless a b \<Longrightarrow> dle a b"
  by (cases a; cases b) (auto simp: Let_def)

lemma std_min_lower_bound:
  "\<not> isnan a \<Longrightarrow> \<not> isnan b \<Longrightarrow> dle (std_min a b) a \<and> dle (std_min a b) b"
  by (simp add: std_min_def dle_refl not_dless_dle dless_dle)

section \<open>Order processing: basic facts\<close>

lemma validateOrder_qty: "validateOrder now svc ex order \<Longrightarrow> \<not> isnan (qty order)"
  by (auto simp: validateOrder_def dest: dless_not_nan)

lemma agress_no_cross: "no_cross order topPrice \<Longrightarrow> agress md svc ex order qtyAtTop topPrice = (Done, svc, [])"
  by (simp add: agress_def)

lemma agress_no_qty:
  "\<not> dless (double_of_int 0) (matchedQty order qtyAtTop) \<Longrightarrow>
   agress md svc ex order qtyAtTop topPrice = (Done, svc, [])"
  by (simp add: agress_def)

lemma process_validated:
  assumes "validateOrder now svc ex order" and "m_book ex = Some p"
  shows "process md now svc ex order =
     (case agress md svc (ex\<lparr>m_lastOrderSendTime := now\<rparr>) order
             (qtyAtTop_of order (md_memory md p)) (topPrice_of order (md_memory md p)) of
        (doneStatus, svc', posted) \<Rightarrow>
          (svc', ex\<lparr>m_lastOrderSendTime := now\<rparr>,
           [OnAck (m_symbol ex) (orderId order) (side order) (price order) (qty order) (tif order)],
           posted @ [(outboundDelay (m_settings svc'), OrderDoneEvent (orderId order) doneStatus)]))"
  using assms by (simp add: process_def Let_def)

lemma process_rejected:
  assumes "\<not> validateOrder now svc ex order"
  shows "process md now svc ex order =
     (svc, ex,
      [OnAck (m_symbol ex) (orderId order) (side order) (price order) (qty order) (tif order)],
      [(outboundDelay (m_settings svc), OrderDoneEvent (orderId order) InternalReject)])"
  using assms by (simp add: process_def Let_def split: option.splits)

lemma validateNOPChange_settings: "m_settings (snd (validateNOPChange md svc ex d c)) = m_settings svc"
  by (simp add: validateNOPChange_def Let_def)

lemma agress_settings: "m_settings (fst (snd (agress md svc ex order q t))) = m_settings svc"
  by (simp add: agress_def validateNOPChange_settings split: prod.splits)
     (metis snd_conv validateNOPChange_settings)

text \<open>The NOP gate, and what \<open>agress\<close> does with an order that crosses.\<close>

lemma dealt_not_nan:
  "dless (double_of_int 0) (matchedQty order qtyAtTop) \<Longrightarrow> \<not> isnan (dealt_of order qtyAtTop)"
  by (auto simp: dealt_of_def isnan_dmul_sign_left dest: dless_not_nan)

lemma validateNOPChange_accepts:
  "fst (validateNOPChange md svc ex dealt contra) \<longleftrightarrow>
     \<not> isnan dealt \<and> \<not> isnan contra \<and> spec_nop_gate md svc ex dealt contra"
  by (simp add: validateNOPChange_def spec_nop_gate_def Impl_getNOP_def Let_def)

lemma spec_nop_gate_executor:
  "spec_nop_gate md svc (ex\<lparr>m_lastOrderSendTime := t\<rparr>) d c = spec_nop_gate md svc ex d c"
  by (simp add: spec_nop_gate_def)

lemma agress_crossing:
  assumes c: "\<not> no_cross order topPrice"
      and d: "dealt = dealt_of order qtyAtTop"
      and k: "contra = contra_of order qtyAtTop topPrice"
  shows "agress md svc ex order qtyAtTop topPrice =
     (if dless (double_of_int 0) (matchedQty order qtyAtTop) then
        (if \<not> isnan contra \<and> spec_nop_gate md svc ex dealt contra
         then (Done, snd (validateNOPChange md svc ex dealt contra),
               [(outboundDelay (m_settings svc), FillEvent (orderId order) dealt contra)])
         else (InternalReject, snd (validateNOPChange md svc ex dealt contra), []))
      else (Done, svc, []))"
proof (cases "dless (double_of_int 0) (matchedQty order qtyAtTop)")
  case True
  have nd: "\<not> isnan dealt"
    using True d by (simp add: dealt_not_nan)
  obtain ok svc' where vn: "validateNOPChange md svc ex dealt contra = (ok, svc')"
    by (cases "validateNOPChange md svc ex dealt contra")
  have ok: "ok \<longleftrightarrow> \<not> isnan contra \<and> spec_nop_gate md svc ex dealt contra"
    using validateNOPChange_accepts [of md svc ex dealt contra] nd vn by simp
  have st: "m_settings svc' = m_settings svc"
    using validateNOPChange_settings [of md svc ex dealt contra] vn by simp
  show ?thesis
    using c True vn st ok by (simp add: agress_def d [symmetric] k [symmetric])
next
  case False
  then show ?thesis
    using c by (simp add: agress_def)
qed

section \<open>The order-id counter\<close>

text \<open>
  Claim C3, as the code has it: \<open>getNextOrderId\<close> is \<open>++m_lastOrderId\<close>, so each
  \<open>sendOrder\<close> advances the counter by one (modulo \<open>2^64\<close>) and returns the new value.
  Two successive calls return consecutive ids, one odd and one even, and the returned
  id is the old counter plus one as a number unless the counter was at its maximum.
\<close>

theorem sendOrder_counter_step:
  assumes "sendOrder md svc ex sd pr q t = (oid, svc', ex', posted)"
      and "sendOrder md2 svc' ex2 sd2 pr2 q2 t2 = (oid2, svc'', ex2', posted2)"
  shows "m_lastOrderId svc' = m_lastOrderId svc + 1 \<and> oid = m_lastOrderId svc' \<and>
         oid2 = oid + 1 \<and> (even oid \<longleftrightarrow> odd oid2) \<and>
         (unat (m_lastOrderId svc) < 2 ^ 64 - 1 \<longrightarrow> unat oid = unat (m_lastOrderId svc) + 1)"
proof -
  have a: "oid = m_lastOrderId svc + 1" "m_lastOrderId svc' = m_lastOrderId svc + 1"
    using assms(1) by (auto simp: sendOrder_def getNextOrderId_def Let_def)
  have b: "oid2 = m_lastOrderId svc' + 1"
    using assms(2) by (auto simp: sendOrder_def getNextOrderId_def Let_def)
  have c: "unat (m_lastOrderId svc) < 2 ^ 64 - 1 \<longrightarrow>
           unat (m_lastOrderId svc + 1) = unat (m_lastOrderId svc) + 1"
    by (simp add: unat_word_ariths)
  show ?thesis using a b c by simp
qed

theorem sendOrder_counter_step_witness:
  "fst (sendOrder ex_md ex_svc ex_executor Buy NaN (double_of_int 5) IOC) = 1 \<and>
   m_lastOrderId (fst (snd (sendOrder ex_md ex_svc ex_executor Buy NaN (double_of_int 5) IOC))) = 1 \<and>
   fst (sendOrder ex_md (fst (snd (sendOrder ex_md ex_svc ex_executor Buy NaN (double_of_int 5) IOC)))
          ex_executor Sell NaN (double_of_int 5) IOC) = 2"
  using sendOrder_counter_step
    [of ex_md ex_svc ex_executor Buy NaN "double_of_int 5" IOC
        "fst (sendOrder ex_md ex_svc ex_executor Buy NaN (double_of_int 5) IOC)"
        "fst (snd (sendOrder ex_md ex_svc ex_executor Buy NaN (double_of_int 5) IOC))"
        "fst (snd (snd (sendOrder ex_md ex_svc ex_executor Buy NaN (double_of_int 5) IOC)))"
        "snd (snd (snd (sendOrder ex_md ex_svc ex_executor Buy NaN (double_of_int 5) IOC)))"
        ex_md ex_executor Sell NaN "double_of_int 5" IOC
        "fst (sendOrder ex_md (fst (snd (sendOrder ex_md ex_svc ex_executor Buy NaN (double_of_int 5) IOC))) ex_executor Sell NaN (double_of_int 5) IOC)"
        "fst (snd (sendOrder ex_md (fst (snd (sendOrder ex_md ex_svc ex_executor Buy NaN (double_of_int 5) IOC))) ex_executor Sell NaN (double_of_int 5) IOC))"
        "fst (snd (snd (sendOrder ex_md (fst (snd (sendOrder ex_md ex_svc ex_executor Buy NaN (double_of_int 5) IOC))) ex_executor Sell NaN (double_of_int 5) IOC)))"
        "snd (snd (snd (sendOrder ex_md (fst (snd (sendOrder ex_md ex_svc ex_executor Buy NaN (double_of_int 5) IOC))) ex_executor Sell NaN (double_of_int 5) IOC)))"]
  by (simp add: sendOrder_def getNextOrderId_def ex_svc_def)

text \<open>
  Claim C3 as stated fails: from a counter at 0, one \<open>sendOrder\<close> leaves the counter
  at 1, not at 2.
\<close>

theorem sendOrder_counter_not_even_stepped:
  "m_lastOrderId (fst (snd (sendOrder ex_md ex_svc ex_executor Buy NaN (double_of_int 5) IOC)))
     \<noteq> m_lastOrderId ex_svc + 2"
  by (simp add: sendOrder_def getNextOrderId_def ex_svc_def)

section \<open>Matching against the top of the book\<close>

text \<open>
  Claim C9: a validated order that crosses a side whose price is a number but whose size
  is NaN matches the quantity \<open>std::min(NaN, order.qty)\<close>, which is NaN and fails the
  test \<open>matchedQty > 0\<close>; the order terminates \<open>Done\<close>, no fill is posted and the
  simulator's state, positions included, is unchanged.
\<close>

theorem nan_size_yields_no_fill:
  assumes v: "validateOrder now svc ex order" and b: "m_book ex = Some p"
      and q: "isnan (qtyAtTop_of order (md_memory md p))"
      and t: "\<not> isnan (topPrice_of order (md_memory md p))"
      and c: "\<not> dless (dmul (price order) (double_of_int (sideToSign (side order))))
                  (dsub (dmul (topPrice_of order (md_memory md p))
                          (double_of_int (sideToSign (side order)))) priceTolerance)"
  shows "isnan (matchedQty order (qtyAtTop_of order (md_memory md p))) \<and>
         \<not> dless (double_of_int 0) (matchedQty order (qtyAtTop_of order (md_memory md p))) \<and>
         process md now svc ex order =
           (svc, ex\<lparr>m_lastOrderSendTime := now\<rparr>,
            [OnAck (m_symbol ex) (orderId order) (side order) (price order) (qty order) (tif order)],
            [(outboundDelay (m_settings svc), OrderDoneEvent (orderId order) Done)])"
proof -
  have mq: "matchedQty order (qtyAtTop_of order (md_memory md p)) = NaN"
    using q by (simp add: matchedQty_def std_min_nan_left)
  have nd: "\<not> dless (double_of_int 0) (matchedQty order (qtyAtTop_of order (md_memory md p)))"
    by (simp add: mq dless_nan_right)
  have "agress md svc (ex\<lparr>m_lastOrderSendTime := now\<rparr>) order
          (qtyAtTop_of order (md_memory md p)) (topPrice_of order (md_memory md p)) = (Done, svc, [])"
    by (rule agress_no_qty [OF nd])
  then show ?thesis
    using mq nd by (simp add: process_validated [OF v b])
qed

theorem nan_size_yields_no_fill_witness:
  "validateOrder ex_now ex_svc ready_executor (market_order Buy (double_of_int 5)) \<and>
   isnan (qtyAtTop_of (market_order Buy (double_of_int 5)) (md_memory nan_size_md 0)) \<and>
   process nan_size_md ex_now ex_svc ready_executor (market_order Buy (double_of_int 5)) =
     (ex_svc, ready_executor\<lparr>m_lastOrderSendTime := ex_now\<rparr>,
      [OnAck ''EUR/USD'' 1 Buy NaN (double_of_int 5) IOC],
      [(1000000, OrderDoneEvent 1 Done)])"
proof -
  have v: "validateOrder ex_now ex_svc ready_executor (market_order Buy (double_of_int 5))"
    by code_simp
  have b: "m_book ready_executor = Some 0"
    by (simp add: ready_executor_def)
  have q: "isnan (qtyAtTop_of (market_order Buy (double_of_int 5)) (md_memory nan_size_md 0))"
    by code_simp
  have t: "\<not> isnan (topPrice_of (market_order Buy (double_of_int 5)) (md_memory nan_size_md 0))"
    by code_simp
  have c: "\<not> dless (dmul (price (market_order Buy (double_of_int 5)))
                      (double_of_int (sideToSign (side (market_order Buy (double_of_int 5))))))
                (dsub (dmul (topPrice_of (market_order Buy (double_of_int 5)) (md_memory nan_size_md 0))
                        (double_of_int (sideToSign (side (market_order Buy (double_of_int 5))))))
                   priceTolerance)"
    by code_simp
  show ?thesis
    using nan_size_yields_no_fill [OF v b q t c] v q
    by (simp add: market_order_def ready_executor_def ex_executor_def ex_svc_def ex_settings_def)
qed

text \<open>
  Claim C2: for a validated order, with the ask side taken for a Buy and the bid side for
  a Sell: if the top price is NaN or \<open>order.price * sideSign < topPrice * sideSign - 1e-8\<close>
  the order terminates \<open>Done\<close> with no fill and the simulator's state (positions
  included) is unchanged.  Otherwise the matched price is the top price, whatever the
  order's price, and the matched quantity is \<open>std::min(qtyAtTop, order.qty)\<close>: it is
  below both when the size is a number, and \<open>process\<close> trades exactly that.  When the
  matched quantity is positive and the NOP gate accepts, one fill is posted, dealing
  \<open>sideSign * matchedQty\<close> against \<open>-dealt * topPrice\<close>, and the order terminates
  \<open>Done\<close>; when the gate rejects, no fill is posted and the order terminates
  \<open>InternalReject\<close>; when the matched quantity is not positive, no fill is posted, the
  order terminates \<open>Done\<close> and the state is unchanged.
\<close>

theorem matching_rule:
  assumes v: "validateOrder now svc ex order" and b: "m_book ex = Some p"
      and tp: "topPrice =
                 (if side order = Buy then askPrice (md_memory md p) else bidPrice (md_memory md p))"
      and qt: "qtyAtTop =
                 (if side order = Buy then askSize (md_memory md p) else bidSize (md_memory md p))"
      and sg: "sideSign = double_of_int (sideToSign (side order))"
      and dl: "dealt = dmul sideSign (std_min qtyAtTop (qty order))"
      and ct: "contra = dmul (dneg dealt) topPrice"
      and ak: "ack = OnAck (m_symbol ex) (orderId order) (side order) (price order) (qty order) (tif order)"
      and od: "delay = outboundDelay (m_settings svc)"
  shows "(isnan topPrice \<or> dless (dmul (price order) sideSign) (dsub (dmul topPrice sideSign) priceTolerance) \<longrightarrow>
            process md now svc ex order =
              (svc, ex\<lparr>m_lastOrderSendTime := now\<rparr>, [ack],
               [(delay, OrderDoneEvent (orderId order) Done)])) \<and>
         (\<not> (isnan topPrice \<or> dless (dmul (price order) sideSign) (dsub (dmul topPrice sideSign) priceTolerance)) \<longrightarrow>
            matchedPrice order topPrice = topPrice \<and>
            matchedQty order qtyAtTop = std_min qtyAtTop (qty order) \<and>
            (\<not> isnan qtyAtTop \<longrightarrow>
               dle (matchedQty order qtyAtTop) qtyAtTop \<and> dle (matchedQty order qtyAtTop) (qty order)) \<and>
            (\<forall>dl' oid d c.
               (dl', FillEvent oid d c) \<in> set (snd (snd (snd (process md now svc ex order)))) \<longrightarrow>
               oid = orderId order \<and> d = dealt \<and> c = contra) \<and>
            process md now svc ex order =
              (if dless (double_of_int 0) (std_min qtyAtTop (qty order)) then
                 (if \<not> isnan contra \<and> spec_nop_gate md svc ex dealt contra
                  then (snd (validateNOPChange md svc (ex\<lparr>m_lastOrderSendTime := now\<rparr>) dealt contra),
                        ex\<lparr>m_lastOrderSendTime := now\<rparr>, [ack],
                        [(delay, FillEvent (orderId order) dealt contra),
                         (delay, OrderDoneEvent (orderId order) Done)])
                  else (snd (validateNOPChange md svc (ex\<lparr>m_lastOrderSendTime := now\<rparr>) dealt contra),
                        ex\<lparr>m_lastOrderSendTime := now\<rparr>, [ack],
                        [(delay, OrderDoneEvent (orderId order) InternalReject)]))
               else (svc, ex\<lparr>m_lastOrderSendTime := now\<rparr>, [ack],
                     [(delay, OrderDoneEvent (orderId order) Done)])))"
proof -
  have tp': "topPrice_of order (md_memory md p) = topPrice"
    by (simp add: topPrice_of_def tp)
  have qt': "qtyAtTop_of order (md_memory md p) = qtyAtTop"
    by (simp add: qtyAtTop_of_def qt)
  have nc: "no_cross order topPrice \<longleftrightarrow>
      (isnan topPrice \<or> dless (dmul (price order) sideSign) (dsub (dmul topPrice sideSign) priceTolerance))"
    by (simp add: no_cross_def sg)
  have mp: "matchedPrice order topPrice = topPrice"
    by (simp add: matchedPrice_def isPriceImprovementEnabled_def)
  have mq: "matchedQty order qtyAtTop = std_min qtyAtTop (qty order)"
    by (simp add: matchedQty_def)
  have d: "dealt = dealt_of order qtyAtTop"
    by (simp add: dealt_of_def mq dl sg)
  have k: "contra = contra_of order qtyAtTop topPrice"
    by (simp add: contra_of_def mp ct d)
  have pv: "process md now svc ex order =
     (case agress md svc (ex\<lparr>m_lastOrderSendTime := now\<rparr>) order qtyAtTop topPrice of
        (doneStatus, svc', posted) \<Rightarrow>
          (svc', ex\<lparr>m_lastOrderSendTime := now\<rparr>, [ack],
           posted @ [(outboundDelay (m_settings svc'), OrderDoneEvent (orderId order) doneStatus)]))"
    by (simp add: process_validated [OF v b] tp' qt' ak)
  have first: "process md now svc ex order =
      (svc, ex\<lparr>m_lastOrderSendTime := now\<rparr>, [ack], [(delay, OrderDoneEvent (orderId order) Done)])"
    if "no_cross order topPrice"
    using that by (simp add: pv agress_no_cross od)
  have full: "process md now svc ex order =
      (if dless (double_of_int 0) (std_min qtyAtTop (qty order)) then
         (if \<not> isnan contra \<and> spec_nop_gate md svc ex dealt contra
          then (snd (validateNOPChange md svc (ex\<lparr>m_lastOrderSendTime := now\<rparr>) dealt contra),
                ex\<lparr>m_lastOrderSendTime := now\<rparr>, [ack],
                [(delay, FillEvent (orderId order) dealt contra),
                 (delay, OrderDoneEvent (orderId order) Done)])
          else (snd (validateNOPChange md svc (ex\<lparr>m_lastOrderSendTime := now\<rparr>) dealt contra),
                ex\<lparr>m_lastOrderSendTime := now\<rparr>, [ack],
                [(delay, OrderDoneEvent (orderId order) InternalReject)]))
       else (svc, ex\<lparr>m_lastOrderSendTime := now\<rparr>, [ack],
             [(delay, OrderDoneEvent (orderId order) Done)]))"
    if "\<not> no_cross order topPrice"
    using agress_crossing [OF that d k, of md svc "ex\<lparr>m_lastOrderSendTime := now\<rparr>"]
    by (simp add: pv mq od spec_nop_gate_executor validateNOPChange_settings)
  have fills: "\<forall>dl' oid d c.
       (dl', FillEvent oid d c) \<in> set (snd (snd (snd (process md now svc ex order)))) \<longrightarrow>
       oid = orderId order \<and> d = dealt \<and> c = contra"
    if "\<not> no_cross order topPrice"
    using full [OF that] by (auto split: if_splits)
  have bounds: "dle (matchedQty order qtyAtTop) qtyAtTop \<and> dle (matchedQty order qtyAtTop) (qty order)"
    if "\<not> isnan qtyAtTop"
    using that validateOrder_qty [OF v] by (simp add: matchedQty_def std_min_lower_bound)
  show ?thesis
    unfolding nc [symmetric] using first full fills bounds mp mq by blast
qed

theorem matching_rule_witness:
  "process ex_md ex_now ex_svc ready_executor passive_order =
     (ex_svc, ready_executor\<lparr>m_lastOrderSendTime := ex_now\<rparr>,
      [OnAck ''EUR/USD'' 1 Buy (double_of_int 0) (double_of_int 5) IOC],
      [(1000000, OrderDoneEvent 1 Done)]) \<and>
   snd (snd (process ex_md ex_now ex_svc ready_executor aggressive_order)) =
     ([OnAck ''EUR/USD'' 1 Buy (double_of_int 2) (double_of_int 5) IOC],
      [(1000000, FillEvent 1 (double_of_int 5) (double_of_int (- 5))),
       (1000000, OrderDoneEvent 1 Done)]) \<and>
   matchedPrice aggressive_order (double_of_int 1) = double_of_int 1 \<and>
   matchedQty aggressive_order (double_of_int 1000000) = double_of_int 5 \<and>
   snd (snd (snd (process ex_md ex_now ex_svc ready_executor (market_order Buy (double_of_int 5))))) =
     [(1000000, FillEvent 1 (double_of_int 5) (double_of_int (- 5))),
      (1000000, OrderDoneEvent 1 Done)] \<and>
   snd (snd (process ex_md ex_now tight_svc ready_executor (market_order Sell fifth))) =
     ([OnAck ''EUR/USD'' 1 Sell NaN fifth IOC], [(1000000, OrderDoneEvent 1 InternalReject)])"
proof -
  have b: "m_book ready_executor = Some 0"
    by (simp add: ready_executor_def)
  have v1: "validateOrder ex_now ex_svc ready_executor passive_order"
    by code_simp
  have tp1: "double_of_int 1 =
      (if side passive_order = Buy then askPrice (md_memory ex_md 0) else bidPrice (md_memory ex_md 0))"
    by code_simp
  have qt1: "double_of_int 1000000 =
      (if side passive_order = Buy then askSize (md_memory ex_md 0) else bidSize (md_memory ex_md 0))"
    by code_simp
  have sg1: "double_of_int 1 = double_of_int (sideToSign (side passive_order))"
    by code_simp
  have dl1: "double_of_int 5 =
      dmul (double_of_int 1) (std_min (double_of_int 1000000) (qty passive_order))"
    by code_simp
  have ct1: "double_of_int (- 5) = dmul (dneg (double_of_int 5)) (double_of_int 1)"
    by code_simp
  have ak1: "OnAck ''EUR/USD'' 1 Buy (double_of_int 0) (double_of_int 5) IOC =
      OnAck (m_symbol ready_executor) (orderId passive_order) (side passive_order)
        (price passive_order) (qty passive_order) (tif passive_order)"
    by code_simp
  have od: "1000000 = outboundDelay (m_settings ex_svc)"
    by (simp add: ex_svc_def ex_settings_def)
  have pre1: "isnan (double_of_int 1) \<or>
      dless (dmul (price passive_order) (double_of_int 1))
        (dsub (dmul (double_of_int 1) (double_of_int 1)) priceTolerance)"
    by code_simp
  have r1: "process ex_md ex_now ex_svc ready_executor passive_order =
      (ex_svc, ready_executor\<lparr>m_lastOrderSendTime := ex_now\<rparr>,
       [OnAck ''EUR/USD'' 1 Buy (double_of_int 0) (double_of_int 5) IOC],
       [(1000000, OrderDoneEvent (orderId passive_order) Done)])"
    using matching_rule [OF v1 b tp1 qt1 sg1 dl1 ct1 ak1 od] pre1 by blast
  have v2: "validateOrder ex_now ex_svc ready_executor aggressive_order"
    by code_simp
  have tp2: "double_of_int 1 =
      (if side aggressive_order = Buy then askPrice (md_memory ex_md 0) else bidPrice (md_memory ex_md 0))"
    by code_simp
  have qt2: "double_of_int 1000000 =
      (if side aggressive_order = Buy then askSize (md_memory ex_md 0) else bidSize (md_memory ex_md 0))"
    by code_simp
  have sg2: "double_of_int 1 = double_of_int (sideToSign (side aggressive_order))"
    by code_simp
  have dl2: "double_of_int 5 =
      dmul (double_of_int 1) (std_min (double_of_int 1000000) (qty aggressive_order))"
    by code_simp
  have ak2: "OnAck ''EUR/USD'' 1 Buy (double_of_int 2) (double_of_int 5) IOC =
      OnAck (m_symbol ready_executor) (orderId aggressive_order) (side aggressive_order)
        (price aggressive_order) (qty aggressive_order) (tif aggressive_order)"
    by code_simp
  have pre2: "\<not> (isnan (double_of_int 1) \<or>
      dless (dmul (price aggressive_order) (double_of_int 1))
        (dsub (dmul (double_of_int 1) (double_of_int 1)) priceTolerance))"
    by code_simp
  have pos2: "dless (double_of_int 0) (std_min (double_of_int 1000000) (qty aggressive_order))"
    by code_simp
  have gate2: "\<not> isnan (double_of_int (- 5)) \<and>
      spec_nop_gate ex_md ex_svc ready_executor (double_of_int 5) (double_of_int (- 5))"
    by code_simp
  have oid2: "orderId aggressive_order = 1"
    by code_simp
  have r2: "process ex_md ex_now ex_svc ready_executor aggressive_order =
      (snd (validateNOPChange ex_md ex_svc (ready_executor\<lparr>m_lastOrderSendTime := ex_now\<rparr>)
              (double_of_int 5) (double_of_int (- 5))),
       ready_executor\<lparr>m_lastOrderSendTime := ex_now\<rparr>,
       [OnAck ''EUR/USD'' 1 Buy (double_of_int 2) (double_of_int 5) IOC],
       [(1000000, FillEvent (orderId aggressive_order) (double_of_int 5) (double_of_int (- 5))),
        (1000000, OrderDoneEvent (orderId aggressive_order) Done)])"
  proof -
    have e: "process ex_md ex_now ex_svc ready_executor aggressive_order =
      (if dless (double_of_int 0) (std_min (double_of_int 1000000) (qty aggressive_order)) then
         (if \<not> isnan (double_of_int (- 5)) \<and>
             spec_nop_gate ex_md ex_svc ready_executor (double_of_int 5) (double_of_int (- 5))
          then (snd (validateNOPChange ex_md ex_svc (ready_executor\<lparr>m_lastOrderSendTime := ex_now\<rparr>)
                       (double_of_int 5) (double_of_int (- 5))),
                ready_executor\<lparr>m_lastOrderSendTime := ex_now\<rparr>,
                [OnAck ''EUR/USD'' 1 Buy (double_of_int 2) (double_of_int 5) IOC],
                [(1000000, FillEvent (orderId aggressive_order) (double_of_int 5) (double_of_int (- 5))),
                 (1000000, OrderDoneEvent (orderId aggressive_order) Done)])
          else (snd (validateNOPChange ex_md ex_svc (ready_executor\<lparr>m_lastOrderSendTime := ex_now\<rparr>)
                       (double_of_int 5) (double_of_int (- 5))),
                ready_executor\<lparr>m_lastOrderSendTime := ex_now\<rparr>,
                [OnAck ''EUR/USD'' 1 Buy (double_of_int 2) (double_of_int 5) IOC],
                [(1000000, OrderDoneEvent (orderId aggressive_order) InternalReject)]))
       else (ex_svc, ready_executor\<lparr>m_lastOrderSendTime := ex_now\<rparr>,
             [OnAck ''EUR/USD'' 1 Buy (double_of_int 2) (double_of_int 5) IOC],
             [(1000000, OrderDoneEvent (orderId aggressive_order) Done)]))"
      using matching_rule [OF v2 b tp2 qt2 sg2 dl2 ct1 ak2 od] pre2 by blast
    show ?thesis
      unfolding e using pos2 gate2 by (simp only: if_True simp_thms)
  qed
  have r3: "matchedPrice aggressive_order (double_of_int 1) = double_of_int 1"
    using matching_rule [OF v2 b tp2 qt2 sg2 dl2 ct1 ak2 od] pre2 by blast
  have r4: "matchedQty aggressive_order (double_of_int 1000000) = double_of_int 5"
    by code_simp
  have fills: "snd (snd (snd (process ex_md ex_now ex_svc ready_executor
                  (market_order Buy (double_of_int 5))))) =
     [(1000000, FillEvent 1 (double_of_int 5) (double_of_int (- 5))),
      (1000000, OrderDoneEvent 1 Done)]"
    by code_simp
  have oid1: "orderId passive_order = 1"
    by code_simp
  have ct3: "fifth = dmul (dneg (dneg fifth)) (double_of_int 1)"
    by code_simp
  have v3: "validateOrder ex_now tight_svc ready_executor (market_order Sell fifth)"
    by code_simp
  have tp3: "double_of_int 1 =
      (if side (market_order Sell fifth) = Buy then askPrice (md_memory ex_md 0)
       else bidPrice (md_memory ex_md 0))"
    by code_simp
  have qt3: "double_of_int 1000000 =
      (if side (market_order Sell fifth) = Buy then askSize (md_memory ex_md 0)
       else bidSize (md_memory ex_md 0))"
    by code_simp
  have sg3: "double_of_int (- 1) = double_of_int (sideToSign (side (market_order Sell fifth)))"
    by code_simp
  have dl3: "dneg fifth =
      dmul (double_of_int (- 1)) (std_min (double_of_int 1000000) (qty (market_order Sell fifth)))"
    by code_simp
  have ak3: "OnAck ''EUR/USD'' 1 Sell NaN fifth IOC =
      OnAck (m_symbol ready_executor) (orderId (market_order Sell fifth)) (side (market_order Sell fifth))
        (price (market_order Sell fifth)) (qty (market_order Sell fifth)) (tif (market_order Sell fifth))"
    by code_simp
  have od3: "1000000 = outboundDelay (m_settings tight_svc)"
    by code_simp
  have pre3: "\<not> (isnan (double_of_int 1) \<or>
      dless (dmul (price (market_order Sell fifth)) (double_of_int (- 1)))
        (dsub (dmul (double_of_int 1) (double_of_int (- 1))) priceTolerance))"
    by code_simp
  have pos3: "dless (double_of_int 0) (std_min (double_of_int 1000000) (qty (market_order Sell fifth)))"
    by code_simp
  have gate3: "\<not> (\<not> isnan fifth \<and> spec_nop_gate ex_md tight_svc ready_executor (dneg fifth) fifth)"
    by code_simp
  have oid3: "orderId (market_order Sell fifth) = 1"
    by code_simp
  have e3: "process ex_md ex_now tight_svc ready_executor (market_order Sell fifth) =
      (if dless (double_of_int 0) (std_min (double_of_int 1000000) (qty (market_order Sell fifth))) then
         (if \<not> isnan fifth \<and> spec_nop_gate ex_md tight_svc ready_executor (dneg fifth) fifth
          then (snd (validateNOPChange ex_md tight_svc (ready_executor\<lparr>m_lastOrderSendTime := ex_now\<rparr>)
                       (dneg fifth) fifth),
                ready_executor\<lparr>m_lastOrderSendTime := ex_now\<rparr>,
                [OnAck ''EUR/USD'' 1 Sell NaN fifth IOC],
                [(1000000, FillEvent (orderId (market_order Sell fifth)) (dneg fifth) fifth),
                 (1000000, OrderDoneEvent (orderId (market_order Sell fifth)) Done)])
          else (snd (validateNOPChange ex_md tight_svc (ready_executor\<lparr>m_lastOrderSendTime := ex_now\<rparr>)
                       (dneg fifth) fifth),
                ready_executor\<lparr>m_lastOrderSendTime := ex_now\<rparr>,
                [OnAck ''EUR/USD'' 1 Sell NaN fifth IOC],
                [(1000000, OrderDoneEvent (orderId (market_order Sell fifth)) InternalReject)]))
       else (tight_svc, ready_executor\<lparr>m_lastOrderSendTime := ex_now\<rparr>,
             [OnAck ''EUR/USD'' 1 Sell NaN fifth IOC],
             [(1000000, OrderDoneEvent (orderId (market_order Sell fifth)) Done)]))"
    using matching_rule [OF v3 b tp3 qt3 sg3 dl3 ct3 ak3 od3] pre3 by blast
  have r5: "process ex_md ex_now tight_svc ready_executor (market_order Sell fifth) =
      (snd (validateNOPChange ex_md tight_svc (ready_executor\<lparr>m_lastOrderSendTime := ex_now\<rparr>)
              (dneg fifth) fifth),
       ready_executor\<lparr>m_lastOrderSendTime := ex_now\<rparr>,
       [OnAck ''EUR/USD'' 1 Sell NaN fifth IOC],
       [(1000000, OrderDoneEvent (orderId (market_order Sell fifth)) InternalReject)])"
    unfolding e3 using pos3 gate3 by (simp only: if_True if_False simp_thms)
  show ?thesis
    using r1 r2 r3 r4 r5 fills oid1 oid2 oid3 by simp
qed

section \<open>The NOP gate\<close>

text \<open>
  Claim C1, as the code has it: for an order that crosses with \<open>matchedQty > 0\<close>,
  \<open>dealt\<close> is never NaN, and \<open>agress\<close> returns \<open>Done\<close> with the fill posted if and
  only if \<open>contra\<close> is not NaN and the NOP of the tentatively updated positions
  satisfies \<open>newNOP < currentNOP\<close> or \<open>newNOP \<le> maxNOP\<close>; otherwise it returns
  \<open>InternalReject\<close> and posts nothing.
\<close>

theorem nop_gate_decides_fill:
  assumes c: "\<not> no_cross order topPrice"
      and q: "dless (double_of_int 0) (matchedQty order qtyAtTop)"
      and d: "dealt = dealt_of order qtyAtTop"
      and k: "contra = contra_of order qtyAtTop topPrice"
      and r: "r = agress md svc ex order qtyAtTop topPrice"
  shows "\<not> isnan dealt \<and>
         ((fst r = Done \<and>
           snd (snd r) = [(outboundDelay (m_settings svc), FillEvent (orderId order) dealt contra)])
            \<longleftrightarrow> (\<not> isnan contra \<and> spec_nop_gate md svc ex dealt contra)) \<and>
         (\<not> (\<not> isnan contra \<and> spec_nop_gate md svc ex dealt contra) \<longrightarrow>
            fst r = InternalReject \<and> snd (snd r) = [])"
proof -
  have nd: "\<not> isnan dealt"
    using q d by (simp add: dealt_not_nan)
  obtain ok svc' where vn: "validateNOPChange md svc ex dealt contra = (ok, svc')"
    by (cases "validateNOPChange md svc ex dealt contra")
  have ok: "ok \<longleftrightarrow> \<not> isnan contra \<and> spec_nop_gate md svc ex dealt contra"
    using validateNOPChange_accepts [of md svc ex dealt contra] nd vn by simp
  have st: "m_settings svc' = m_settings svc"
    using validateNOPChange_settings [of md svc ex dealt contra] vn by simp
  have "r = (if \<not> ok then (InternalReject, svc', [])
             else (Done, svc', [(outboundDelay (m_settings svc), FillEvent (orderId order) dealt contra)]))"
    using c q vn st by (simp add: r agress_def d [symmetric] k [symmetric])
  then show ?thesis
    using nd ok by simp
qed

theorem nop_gate_decides_fill_witness:
  "dless (double_of_int 0) (matchedQty (market_order Buy (double_of_int 5)) (double_of_int 1000000)) \<and>
   fst (agress ex_md ex_svc ready_executor (market_order Buy (double_of_int 5))
          (double_of_int 1000000) (double_of_int 1)) = Done \<and>
   snd (snd (agress ex_md ex_svc ready_executor (market_order Buy (double_of_int 5))
          (double_of_int 1000000) (double_of_int 1))) =
     [(outboundDelay (m_settings ex_svc),
       FillEvent (orderId (market_order Buy (double_of_int 5)))
         (dealt_of (market_order Buy (double_of_int 5)) (double_of_int 1000000))
         (contra_of (market_order Buy (double_of_int 5)) (double_of_int 1000000) (double_of_int 1)))] \<and>
   fst (agress ex_md tight_svc ready_executor (market_order Buy (double_of_int 5))
          (double_of_int 1000000) (double_of_int 1)) = InternalReject \<and>
   snd (snd (agress ex_md tight_svc ready_executor (market_order Buy (double_of_int 5))
          (double_of_int 1000000) (double_of_int 1))) = []"
proof -
  have c: "\<not> no_cross (market_order Buy (double_of_int 5)) (double_of_int 1)"
    by code_simp
  have q: "dless (double_of_int 0)
             (matchedQty (market_order Buy (double_of_int 5)) (double_of_int 1000000))"
    by code_simp
  have g1: "\<not> isnan (contra_of (market_order Buy (double_of_int 5)) (double_of_int 1000000)
                        (double_of_int 1)) \<and>
            spec_nop_gate ex_md ex_svc ready_executor
              (dealt_of (market_order Buy (double_of_int 5)) (double_of_int 1000000))
              (contra_of (market_order Buy (double_of_int 5)) (double_of_int 1000000) (double_of_int 1))"
    by code_simp
  have g2: "\<not> (\<not> isnan (contra_of (market_order Buy (double_of_int 5)) (double_of_int 1000000)
                        (double_of_int 1)) \<and>
            spec_nop_gate ex_md tight_svc ready_executor
              (dealt_of (market_order Buy (double_of_int 5)) (double_of_int 1000000))
              (contra_of (market_order Buy (double_of_int 5)) (double_of_int 1000000) (double_of_int 1)))"
    by code_simp
  show ?thesis
    using nop_gate_decides_fill [OF c q refl refl refl, of ex_md ex_svc ready_executor]
          nop_gate_decides_fill [OF c q refl refl refl, of ex_md tight_svc ready_executor]
          q g1 g2
    by blast
qed

text \<open>
  Claim C1 as stated fails where \<open>contra\<close> is NaN.  A Sell of infinite quantity against
  an infinite bid size at price 0 is validated, crosses and matches an infinite
  quantity; \<open>contra\<close> is \<open>inf * 0\<close>, a NaN.  The NOP of the tentatively updated
  positions is 0 (\<open>std::max(longs, shorts)\<close> returns \<open>longs\<close> when \<open>shorts\<close> is NaN),
  so the NOP condition holds, and yet the gate rejects.
\<close>

theorem nop_gate_rejects_nan_contra:
  "validateOrder ex_now ex_svc ready_executor (market_order Sell (Inf False)) \<and>
   \<not> no_cross (market_order Sell (Inf False)) (bidPrice inf_bid_book) \<and>
   dless (double_of_int 0) (matchedQty (market_order Sell (Inf False)) (bidSize inf_bid_book)) \<and>
   spec_nop_gate inf_bid_md ex_svc ready_executor
     (dealt_of (market_order Sell (Inf False)) (bidSize inf_bid_book))
     (contra_of (market_order Sell (Inf False)) (bidSize inf_bid_book) (bidPrice inf_bid_book)) \<and>
   agress inf_bid_md ex_svc ready_executor (market_order Sell (Inf False))
     (bidSize inf_bid_book) (bidPrice inf_bid_book) = (InternalReject, ex_svc, [])"
  by code_simp

text \<open>
  Claim C6 fails on the code.  With a NOP cap of 0.15, a first Buy of 0.1 EUR at 1.0 is
  filled and leaves the positions at \<open>(0.1, -0.1)\<close>.  A later Buy of 0.2 is rejected by
  the NOP gate, but the revert \<open>(p + d) - d\<close> is rounded twice: the rejected order
  leaves the EUR position at \<open>0.10000000000000003\<close> and the USD position at its negative.
\<close>

theorem rejected_order_changes_positions:
  "snd (snd (snd (process ex_md ex_now tight_svc ready_executor (market_order Buy tenth)))) =
     [(1000000, FillEvent 1 tenth (dneg tenth)), (1000000, OrderDoneEvent 1 Done)] \<and>
   m_positions after_first_fill =
     [(''EUR'', Fin False 7205759403792794 (- 56)), (''USD'', Fin True 7205759403792794 (- 56))] \<and>
   snd (snd (snd (process ex_md (3 * ex_now) after_first_fill later_executor (market_order Buy fifth)))) =
     [(1000000, OrderDoneEvent 1 InternalReject)] \<and>
   m_positions (fst (process ex_md (3 * ex_now) after_first_fill later_executor (market_order Buy fifth))) =
     [(''EUR'', Fin False 7205759403792796 (- 56)), (''USD'', Fin True 7205759403792796 (- 56))]"
  by code_simp

section \<open>The minimum order gap\<close>

lemma sint_sub_in_range:
  fixes a b :: "64 word"
  assumes "sint b \<le> sint a" and "sint a - sint b < 2 ^ 63"
  shows "sint (a - b) = sint a - sint b"
proof -
  have "sint (a - b) = signed_take_bit 63 (sint a - sint b)"
    by (simp add: sint_word_ariths)
  also have "\<dots> = sint a - sint b"
    using assms by (intro signed_take_bit_int_eq_self) simp_all
  finally show ?thesis .
qed

text \<open>
  Claim C8: \<open>process\<close> sets \<open>m_lastOrderSendTime\<close> to the current time exactly when
  the order passes \<open>validateOrder\<close>, whatever matching then does.  Hence after a
  validated order processed at \<open>now1\<close>, whether filled, unfilled or rejected by the NOP
  gate, an order that the same executor processes at \<open>now2\<close> with
  \<open>0 \<le> now2 - now1 < minOrderGap\<close> terminates \<open>InternalReject\<close> and changes nothing,
  whatever the positions and the market then are.
\<close>

theorem order_gap_clock:
  assumes v: "validateOrder now1 svc ex o1"
      and p1: "process md now1 svc ex o1 = (svc1, ex1, ns1, posted1)"
      and le: "sint now1 \<le> sint now2"
      and gap: "sint now2 - sint now1 < sint (minOrderGap (m_settings svc2))"
  shows "m_lastOrderSendTime (fst (snd (process md0 now0 svc0 ex0 o0))) =
           (if validateOrder now0 svc0 ex0 o0 then now0 else m_lastOrderSendTime ex0) \<and>
         m_lastOrderSendTime ex1 = now1 \<and>
         process md2 now2 svc2 ex1 o2 =
           (svc2, ex1,
            [OnAck (m_symbol ex1) (orderId o2) (side o2) (price o2) (qty o2) (tif o2)],
            [(outboundDelay (m_settings svc2), OrderDoneEvent (orderId o2) InternalReject)])"
proof (intro conjI)
  show "m_lastOrderSendTime (fst (snd (process md0 now0 svc0 ex0 o0))) =
           (if validateOrder now0 svc0 ex0 o0 then now0 else m_lastOrderSendTime ex0)"
  proof (cases "validateOrder now0 svc0 ex0 o0")
    case True
    then obtain p0 where "m_book ex0 = Some p0"
      by (auto simp: validateOrder_def)
    with True show ?thesis
      by (simp add: process_validated split: prod.splits)
  next
    case False
    then show ?thesis
      by (simp add: process_rejected)
  qed
next
  obtain p where b: "m_book ex = Some p"
    using v by (auto simp: validateOrder_def)
  have ex1: "ex1 = ex\<lparr>m_lastOrderSendTime := now1\<rparr>"
    using p1 by (simp add: process_validated [OF v b] split: prod.splits)
  then show t: "m_lastOrderSendTime ex1 = now1"
    by simp
  have lt: "sint (minOrderGap (m_settings svc2)) < 2 ^ 63"
    using sint_lt [of "minOrderGap (m_settings svc2)"] by simp
  have "sint (now2 - now1) = sint now2 - sint now1"
    using le gap lt by (intro sint_sub_in_range) simp_all
  then have "\<not> validateOrder now2 svc2 ex1 o2"
    using gap by (simp add: validateOrder_def t)
  then show "process md2 now2 svc2 ex1 o2 =
           (svc2, ex1,
            [OnAck (m_symbol ex1) (orderId o2) (side o2) (price o2) (qty o2) (tif o2)],
            [(outboundDelay (m_settings svc2), OrderDoneEvent (orderId o2) InternalReject)])"
    by (rule process_rejected)
qed

theorem order_gap_clock_witness:
  "validateOrder ex_now tight_svc ready_executor (market_order Buy (double_of_int 5)) \<and>
   snd (snd (snd (process ex_md ex_now tight_svc ready_executor (market_order Buy (double_of_int 5))))) =
     [(1000000, OrderDoneEvent 1 InternalReject)] \<and>
   m_lastOrderSendTime
     (fst (snd (process ex_md ex_now tight_svc ready_executor (market_order Buy (double_of_int 5))))) =
     ex_now \<and>
   snd (snd (snd (process ex_md 15000000000 tight_svc
     (fst (snd (process ex_md ex_now tight_svc ready_executor (market_order Buy (double_of_int 5)))))
     (market_order Sell (double_of_int 1))))) =
     [(outboundDelay (m_settings tight_svc),
       OrderDoneEvent (orderId (market_order Sell (double_of_int 1))) InternalReject)]"
proof -
  have v: "validateOrder ex_now tight_svc ready_executor (market_order Buy (double_of_int 5))"
    by code_simp
  have p1: "process ex_md ex_now tight_svc ready_executor (market_order Buy (double_of_int 5)) =
      (fst (process ex_md ex_now tight_svc ready_executor (market_order Buy (double_of_int 5))),
       fst (snd (process ex_md ex_now tight_svc ready_executor (market_order Buy (double_of_int 5)))),
       fst (snd (snd (process ex_md ex_now tight_svc ready_executor (market_order Buy (double_of_int 5))))),
       snd (snd (snd (process ex_md ex_now tight_svc ready_executor (market_order Buy (double_of_int 5))))))"
    by simp
  have le: "sint ex_now \<le> sint (15000000000 :: TimestampNs)"
    by (simp add: ex_now_def)
  have gap: "sint (15000000000 :: TimestampNs) - sint ex_now < sint (minOrderGap (m_settings tight_svc))"
    by (simp add: ex_now_def tight_svc_def ex_settings_def)
  have rej: "snd (snd (snd (process ex_md ex_now tight_svc ready_executor
               (market_order Buy (double_of_int 5))))) = [(1000000, OrderDoneEvent 1 InternalReject)]"
    by code_simp
  show ?thesis
    using order_gap_clock [OF v p1 le gap, of ex_md ex_now tight_svc ready_executor
        "market_order Buy (double_of_int 5)" ex_md "market_order Sell (double_of_int 1)"] v rej
    by simp
qed

section \<open>Batches of a DirectConsumer\<close>

lemma consumer_call_flag:
  assumes "consumer_call dc c = Some (dc1, out1)" and "c \<noteq> EndBatch"
  shows "m_updates_received dc1 = (m_updates_received dc \<or> list_ex is_invoke out1)"
  using assms
  by (cases c)
     (auto simp: createEntry_def getCreateEntry_def subscribe_def Entry_publish_def
        split: option.splits if_splits)

lemma consumer_calls_flag:
  assumes "consumer_calls dc cs = Some (dc', out)" and "EndBatch \<notin> set cs"
  shows "m_updates_received dc' = (m_updates_received dc \<or> list_ex is_invoke out)"
  using assms
proof (induction cs arbitrary: dc out)
  case Nil
  then show ?case by simp
next
  case (Cons c cs)
  from Cons.prems(1) obtain dc1 out1 out2
    where s1: "consumer_call dc c = Some (dc1, out1)"
      and s2: "consumer_calls dc1 cs = Some (dc', out2)"
      and o: "out = out1 @ out2"
    by (auto split: option.splits)
  from Cons.prems(2) have ne: "c \<noteq> EndBatch" and rest: "EndBatch \<notin> set cs"
    by auto
  have "m_updates_received dc' = (m_updates_received dc1 \<or> list_ex is_invoke out2)"
    by (rule Cons.IH [OF s2 rest])
  moreover have "m_updates_received dc1 = (m_updates_received dc \<or> list_ex is_invoke out1)"
    by (rule consumer_call_flag [OF s1 ne])
  ultimately show ?case
    by (auto simp: o)
qed

lemma invoke_nonempty:
  assumes "consumer_calls dc cs = Some (dc', out)" and "Invoke cb topic d \<in> set out"
  shows "cb \<noteq> EmptyCallback"
  using assms
proof (induction cs arbitrary: dc out)
  case Nil
  then show ?case by simp
next
  case (Cons c cs)
  from Cons.prems(1) obtain dc1 out1 out2
    where s1: "consumer_call dc c = Some (dc1, out1)"
      and s2: "consumer_calls dc1 cs = Some (dc', out2)"
      and o: "out = out1 @ out2"
    by (auto split: option.splits)
  show ?case
  proof (cases "Invoke cb topic d \<in> set out1")
    case True
    with s1 show ?thesis
      by (cases c)
         (auto simp: createEntry_def Entry_publish_def endBatch_def split: option.splits if_splits)
  next
    case False
    with Cons.prems(2) o have "Invoke cb topic d \<in> set out2" by simp
    then show ?thesis by (rule Cons.IH [OF s2])
  qed
qed

text \<open>What the calls install and count is what the consumer holds and invokes.\<close>

lemma consumer_call_callbacks:
  assumes "consumer_call dc c = Some (dc1, out1)"
  shows "callbacks_of dc1 = spec_callbacks_after (callbacks_of dc) c"
  using assms
  by (cases c)
     (auto simp: callbacks_of_def fun_eq_iff createEntry_def getCreateEntry_def subscribe_def
        Entry_publish_def endBatch_def split: option.splits if_splits)

lemma consumer_call_invoke:
  assumes "consumer_call dc c = Some (dc1, out1)"
  shows "list_ex is_invoke out1 = spec_publish_counts (callbacks_of dc) c"
  using assms
  by (cases c)
     (auto simp: callbacks_of_def createEntry_def getCreateEntry_def subscribe_def
        Entry_publish_def endBatch_def split: option.splits if_splits)

lemma consumer_calls_invoke:
  assumes "consumer_calls dc cs = Some (dc', out)"
  shows "list_ex is_invoke out = spec_nonempty_publish (callbacks_of dc) cs"
  using assms
proof (induction cs arbitrary: dc out)
  case Nil
  then show ?case by simp
next
  case (Cons c cs)
  from Cons.prems obtain dc1 out1 out2
    where s1: "consumer_call dc c = Some (dc1, out1)"
      and s2: "consumer_calls dc1 cs = Some (dc', out2)"
      and o: "out = out1 @ out2"
    by (auto split: option.splits)
  have "list_ex is_invoke out2 = spec_nonempty_publish (callbacks_of dc1) cs"
    by (rule Cons.IH [OF s2])
  then show ?case
    using consumer_call_callbacks [OF s1] consumer_call_invoke [OF s1] by (simp add: o)
qed

text \<open>
  Claim C4, as the code has it.  Take a consumer just after a batch boundary (its flag is
  clear, as after construction or after any \<open>endBatch\<close>) and any calls that reach the
  next \<open>endBatch\<close> without a failed assertion.  That \<open>endBatch\<close> delivers
  \<open>endOfBatch\<close> if and only if some \<open>publish\<close> invoked a callback in between, and
  that is if and only if some \<open>publish\<close> in between was made on a topic whose callback
  was not an empty \<open>std::function\<close>: the no-op lambda of a new entry counts as much as
  a callback installed by \<open>subscribe\<close>.
\<close>

theorem endBatch_iff_callback_invoked:
  assumes "\<not> m_updates_received dc"
      and "EndBatch \<notin> set cs"
      and "consumer_calls dc cs = Some (dc', out)"
  shows "(snd (endBatch dc') = [EndOfBatch] \<longleftrightarrow> (\<exists>cb topic d. Invoke cb topic d \<in> set out)) \<and>
         (snd (endBatch dc') = [] \<longleftrightarrow> \<not> (\<exists>cb topic d. Invoke cb topic d \<in> set out)) \<and>
         (\<forall>cb topic d. Invoke cb topic d \<in> set out \<longrightarrow> cb \<noteq> EmptyCallback) \<and>
         \<not> m_updates_received (fst (endBatch dc')) \<and>
         (snd (endBatch dc') = [EndOfBatch] \<longleftrightarrow> spec_nonempty_publish (callbacks_of dc) cs) \<and>
         (snd (endBatch dc') = [] \<longleftrightarrow> \<not> spec_nonempty_publish (callbacks_of dc) cs)"
proof -
  have inv: "is_invoke x \<longleftrightarrow> (\<exists>cb topic d. x = Invoke cb topic d)" for x
    by (cases x) simp_all
  have ex: "list_ex is_invoke out \<longleftrightarrow> (\<exists>cb topic d. Invoke cb topic d \<in> set out)"
    unfolding list_ex_iff inv by blast
  have flag: "m_updates_received dc' = list_ex is_invoke out"
    using consumer_calls_flag [OF assms(3) assms(2)] assms(1) by simp
  have spec: "list_ex is_invoke out = spec_nonempty_publish (callbacks_of dc) cs"
    by (rule consumer_calls_invoke [OF assms(3)])
  have old: "(snd (endBatch dc') = [EndOfBatch] \<longleftrightarrow> (\<exists>cb topic d. Invoke cb topic d \<in> set out)) \<and>
         (snd (endBatch dc') = [] \<longleftrightarrow> \<not> (\<exists>cb topic d. Invoke cb topic d \<in> set out)) \<and>
         (\<forall>cb topic d. Invoke cb topic d \<in> set out \<longrightarrow> cb \<noteq> EmptyCallback) \<and>
         \<not> m_updates_received (fst (endBatch dc'))"
    using flag invoke_nonempty [OF assms(3)] by (auto simp: endBatch_def ex)
  have new: "(snd (endBatch dc') = [EndOfBatch] \<longleftrightarrow> spec_nonempty_publish (callbacks_of dc) cs) \<and>
         (snd (endBatch dc') = [] \<longleftrightarrow> \<not> spec_nonempty_publish (callbacks_of dc) cs)"
    using flag spec by (simp add: endBatch_def)
  show ?thesis
    using old new by blast
qed

theorem endBatch_iff_callback_invoked_witness:
  "deliveries_of DirectConsumer_init subscribed_calls =
     Some [Notify ''EUR/USD'' 0, Invoke (Subscribed 1) ''EUR/USD'' 0] \<and>
   spec_nonempty_publish (callbacks_of DirectConsumer_init) subscribed_calls \<and>
   endBatch_after DirectConsumer_init subscribed_calls = Some [EndOfBatch] \<and>
   deliveries_of DirectConsumer_init empty_callback_calls = Some [Notify ''EUR/USD'' 0] \<and>
   \<not> spec_nonempty_publish (callbacks_of DirectConsumer_init) empty_callback_calls \<and>
   endBatch_after DirectConsumer_init empty_callback_calls = Some [] \<and>
   deliveries_of DirectConsumer_init noop_calls =
     Some [Notify ''EUR/USD'' 0, Invoke InitialNoOp ''EUR/USD'' 0] \<and>
   spec_nonempty_publish (callbacks_of DirectConsumer_init) noop_calls \<and>
   endBatch_after DirectConsumer_init noop_calls = Some [EndOfBatch]"
proof -
  have f: "\<not> m_updates_received DirectConsumer_init"
    by (simp add: DirectConsumer_init_def)
  have n1: "EndBatch \<notin> set subscribed_calls" and n2: "EndBatch \<notin> set empty_callback_calls"
    and n3: "EndBatch \<notin> set noop_calls"
    by (simp_all add: subscribed_calls_def empty_callback_calls_def noop_calls_def)
  have d1: "deliveries_of DirectConsumer_init subscribed_calls =
      Some [Notify ''EUR/USD'' 0, Invoke (Subscribed 1) ''EUR/USD'' 0]"
    by code_simp
  have d2: "deliveries_of DirectConsumer_init empty_callback_calls = Some [Notify ''EUR/USD'' 0]"
    by code_simp
  have d3: "deliveries_of DirectConsumer_init noop_calls =
      Some [Notify ''EUR/USD'' 0, Invoke InitialNoOp ''EUR/USD'' 0]"
    by code_simp
  have p1: "spec_nonempty_publish (callbacks_of DirectConsumer_init) subscribed_calls"
    by code_simp
  have p2: "\<not> spec_nonempty_publish (callbacks_of DirectConsumer_init) empty_callback_calls"
    by code_simp
  have p3: "spec_nonempty_publish (callbacks_of DirectConsumer_init) noop_calls"
    by code_simp
  obtain dc1 where r1: "consumer_calls DirectConsumer_init subscribed_calls =
      Some (dc1, [Notify ''EUR/USD'' 0, Invoke (Subscribed 1) ''EUR/USD'' 0])"
    using d1 by (auto simp: deliveries_of_def)
  obtain dc2 where r2: "consumer_calls DirectConsumer_init empty_callback_calls =
      Some (dc2, [Notify ''EUR/USD'' 0])"
    using d2 by (auto simp: deliveries_of_def)
  obtain dc3 where r3: "consumer_calls DirectConsumer_init noop_calls =
      Some (dc3, [Notify ''EUR/USD'' 0, Invoke InitialNoOp ''EUR/USD'' 0])"
    using d3 by (auto simp: deliveries_of_def)
  have e1: "snd (endBatch dc1) = [EndOfBatch]"
    using endBatch_iff_callback_invoked [OF f n1 r1] p1 by blast
  have e2: "snd (endBatch dc2) = []"
    using endBatch_iff_callback_invoked [OF f n2 r2] p2 by blast
  have e3: "snd (endBatch dc3) = [EndOfBatch]"
    using endBatch_iff_callback_invoked [OF f n3 r3] p3 by blast
  show ?thesis
    using d1 d2 d3 p1 p2 p3 e1 e2 e3 r1 r2 r3 by (simp add: endBatch_after_def)
qed

text \<open>
  Claim C4 as stated fails: a topic is created and published once, nothing subscribes,
  and \<open>publish\<close> invokes the initial no-op lambda; the next \<open>endBatch\<close> delivers
  \<open>endOfBatch\<close> although no callback installed by \<open>subscribe\<close> was ever invoked.
\<close>

theorem endBatch_after_noop_publish:
  "deliveries_of DirectConsumer_init noop_calls =
     Some [Notify ''EUR/USD'' 0, Invoke InitialNoOp ''EUR/USD'' 0] \<and>
   \<not> list_ex is_subscribed_invoke [Notify ''EUR/USD'' 0, Invoke InitialNoOp ''EUR/USD'' 0] \<and>
   endBatch_after DirectConsumer_init noop_calls = Some [EndOfBatch]"
  by code_simp

section \<open>The clock of the event loop\<close>

lemma descending_cons:
  assumes "sorted_wrt (\<lambda>a b. sint b \<le> sint a) xs" and "xs \<noteq> []" and "sint (hd xs) \<le> sint v"
  shows "sorted_wrt (\<lambda>a b. sint b \<le> sint (a :: TimestampNs)) (v # xs)"
proof -
  obtain h t where xs: "xs = h # t"
    using assms(2) by (cases xs) auto
  have "\<forall>y \<in> set xs. sint y \<le> sint h"
    using assms(1) xs by auto
  then show ?thesis
    using assms(1,3) xs by (auto intro: order_trans)
qed

lemma set_pq_push: "set (pq_push x q) = insert x (set q)"
  by (induction q) auto

lemma sorted_pq_push:
  "sorted_wrt (\<lambda>a b. sint (m_expireTime a) \<le> sint (m_expireTime b)) q \<Longrightarrow>
   sorted_wrt (\<lambda>a b. sint (m_expireTime a) \<le> sint (m_expireTime b)) (pq_push x q)"
proof (induction q)
  case Nil
  then show ?case by simp
next
  case (Cons y ys)
  show ?case
  proof (cases "fires_before x y")
    case True
    then have "sint (m_expireTime x) \<le> sint (m_expireTime y)"
      by (auto simp: fires_before_def)
    with Cons.prems True show ?thesis
      by (auto intro: order_trans)
  next
    case False
    then have "sint (m_expireTime y) \<le> sint (m_expireTime x)"
      by (auto simp: fires_before_def not_less intro: signed_word_eqI)
    with Cons False show ?thesis
      by (auto simp: set_pq_push)
  qed
qed

lemma clock_inv_addFutureEvent:
  assumes "clock_inv start s"
      and "signed_overflow s \<or> sint (m_now s) \<le> sint ts"
  shows "clock_inv start (addFutureEvent ts ev eid s)"
  using assms
  by (auto simp: clock_inv_def addFutureEvent_def set_pq_push sorted_pq_push)

lemma clock_inv_note_overflow:
  "clock_inv start s \<Longrightarrow> clock_inv start (note_overflow delta s)"
  by (auto simp: clock_inv_def note_overflow_def)

lemma note_overflow_bound:
  assumes "0 \<le> sint delta"
  shows "signed_overflow (note_overflow delta s) \<or>
         sint (m_now (note_overflow delta s)) \<le> sint (m_now (note_overflow delta s) + delta)"
  using assms by (auto simp: note_overflow_def)

lemma clock_inv_stop:
  assumes "clock_inv start s" and "0 \<le> sint delta"
  shows "clock_inv start (stop delta s)"
proof -
  have eq: "m_now s = m_now (note_overflow delta s)"
    by (simp add: note_overflow_def)
  show ?thesis
    unfolding stop_def eq
    by (rule clock_inv_addFutureEvent
          [OF clock_inv_note_overflow [OF assms(1)] note_overflow_bound [OF assms(2)]])
qed

lemma clock_inv_postEvent:
  assumes "clock_inv start s" and "0 \<le> sint delta"
  shows "clock_inv start (postEvent delta ev s)"
proof (cases "delta = 0")
  case True
  with assms(1) show ?thesis
    by (auto simp: postEvent_def Let_def clock_inv_def)
next
  case False
  let ?s1 = "s\<lparr>m_lastEventId := m_lastEventId s + 2\<rparr>"
  have i1: "clock_inv start ?s1"
    using assms(1) by (auto simp: clock_inv_def)
  have eq: "m_now ?s1 = m_now (note_overflow delta ?s1)"
    by (simp add: note_overflow_def)
  have "clock_inv start
          (addFutureEvent (m_now (note_overflow delta ?s1) + delta) ev (m_lastEventId s + 2 + 1)
             (note_overflow delta ?s1))"
    by (rule clock_inv_addFutureEvent
          [OF clock_inv_note_overflow [OF i1] note_overflow_bound [OF assms(2)]])
  then show ?thesis
    using False by (simp add: postEvent_def Let_def note_overflow_def)
qed

lemma clock_inv_loop_call:
  assumes "clock_inv start s" and "0 \<le> sint (call_delta c)"
  shows "clock_inv start (loop_call s c)"
  using assms by (cases c) (simp_all add: clock_inv_postEvent clock_inv_stop)

lemma clock_inv_calls:
  assumes "clock_inv start s" and "\<forall>c \<in> set calls. 0 \<le> sint (call_delta c)"
  shows "clock_inv start (foldl loop_call s calls)"
  using assms
  by (induction calls arbitrary: s) (simp_all add: clock_inv_loop_call)

lemma clock_inv_run_event:
  assumes "nonneg_exec exec" and "clock_inv start s"
  shows "clock_inv start (fst (run_event exec ev (s, w)))"
proof (cases ev)
  case (UserEvent e)
  have "\<forall>c \<in> set (snd (exec e (m_now s) w)). 0 \<le> sint (call_delta c)"
    using assms(1) by (simp add: nonneg_exec_def)
  then show ?thesis
    using UserEvent assms(2) by (auto simp: clock_inv_calls split: prod.splits)
next
  case StopEvent
  with assms(2) show ?thesis
    by (auto simp: clock_inv_def)
qed

lemma clock_inv_pop_chore:
  "clock_inv start s \<Longrightarrow> clock_inv start (s\<lparr>m_chores := cs\<rparr>)"
  by (auto simp: clock_inv_def)

lemma clock_inv_dispatchChores:
  assumes "nonneg_exec exec" and "clock_inv start (fst sw)"
  shows "clock_inv start (fst (outcome_state (dispatchChores exec fuel sw)))"
  using assms(2)
proof (induction fuel arbitrary: sw)
  case 0
  then show ?case by (cases sw) simp
next
  case (Suc n)
  obtain s w where sw: "sw = (s, w)" by (cases sw)
  show ?case
  proof (cases "m_enable s \<and> m_chores s \<noteq> []")
    case True
    then obtain c cs where cs: "m_chores s = c # cs" by (cases "m_chores s") auto
    have "clock_inv start (fst (run_event exec (snd c) (s\<lparr>m_chores := cs\<rparr>, w)))"
      using Suc.prems sw by (intro clock_inv_run_event [OF assms(1)] clock_inv_pop_chore) simp
    then have "clock_inv start (fst (outcome_state
        (dispatchChores exec n (run_event exec (snd c) (s\<lparr>m_chores := cs\<rparr>, w)))))"
      by (rule Suc.IH)
    then show ?thesis using True cs sw by simp
  next
    case False
    then show ?thesis using Suc.prems sw by (auto split: list.splits)
  qed
qed

lemma clock_inv_advance:
  assumes "clock_inv start s" and "m_futureEvents s = ev # rest"
  shows "clock_inv start
           (s\<lparr>m_futureEvents := rest, m_now := m_expireTime ev,
              clock_history := m_expireTime ev # clock_history s\<rparr>)"
    and "clock_inv start
           (s\<lparr>m_enable := True, m_now := m_expireTime ev,
              clock_history := m_expireTime ev # clock_history s\<rparr>)"
proof -
  show "clock_inv start
           (s\<lparr>m_futureEvents := rest, m_now := m_expireTime ev,
              clock_history := m_expireTime ev # clock_history s\<rparr>)"
  proof (cases "signed_overflow s")
    case True
    then show ?thesis by (simp add: clock_inv_def)
  next
    case False
    with assms have a: "sorted_wrt (\<lambda>a b. sint b \<le> sint a) (clock_history s @ [start])"
      and b: "hd (clock_history s @ [start]) = m_now s"
      and c: "sint (m_now s) \<le> sint (m_expireTime ev)"
      and d: "\<forall>x \<in> set rest. sint (m_expireTime ev) \<le> sint (m_expireTime x)"
      and e: "sorted_wrt (\<lambda>a b. sint (m_expireTime a) \<le> sint (m_expireTime b)) rest"
      by (auto simp: clock_inv_def)
    have "sorted_wrt (\<lambda>a b. sint b \<le> sint a) (m_expireTime ev # (clock_history s @ [start]))"
      using a b c by (intro descending_cons) simp_all
    then show ?thesis
      using d e by (simp add: clock_inv_def)
  qed
  show "clock_inv start
           (s\<lparr>m_enable := True, m_now := m_expireTime ev,
              clock_history := m_expireTime ev # clock_history s\<rparr>)"
  proof (cases "signed_overflow s")
    case True
    then show ?thesis by (simp add: clock_inv_def)
  next
    case False
    with assms have a: "sorted_wrt (\<lambda>a b. sint b \<le> sint a) (clock_history s @ [start])"
      and b: "hd (clock_history s @ [start]) = m_now s"
      and c: "sint (m_now s) \<le> sint (m_expireTime ev)"
      and d: "\<forall>x \<in> set rest. sint (m_expireTime ev) \<le> sint (m_expireTime x)"
      and e: "sorted_wrt (\<lambda>a b. sint (m_expireTime a) \<le> sint (m_expireTime b)) rest"
      by (auto simp: clock_inv_def)
    have "sorted_wrt (\<lambda>a b. sint b \<le> sint a) (m_expireTime ev # (clock_history s @ [start]))"
      using a b c by (intro descending_cons) simp_all
    then show ?thesis
      using d e assms(2) by (simp add: clock_inv_def)
  qed
qed

lemma clock_inv_dispatchNextFutureEvent:
  assumes "nonneg_exec exec" and "clock_inv start (fst sw)"
  shows "clock_inv start (fst (dispatchNextFutureEvent exec sw))"
proof -
  obtain s w where sw: "sw = (s, w)" by (cases sw)
  show ?thesis
  proof (cases "m_enable s \<and> m_futureEvents s \<noteq> []")
    case True
    then obtain ev rest where q: "m_futureEvents s = ev # rest"
      by (cases "m_futureEvents s") auto
    have "clock_inv start (fst (run_event exec (m_event ev)
            (s\<lparr>m_futureEvents := rest, m_now := m_expireTime ev,
               clock_history := m_expireTime ev # clock_history s\<rparr>, w)))"
      using assms(2) sw by (intro clock_inv_run_event [OF assms(1)] clock_inv_advance(1) [OF _ q]) simp
    then show ?thesis
      using True q sw by (simp add: dispatchNextFutureEvent_def)
  next
    case False
    then show ?thesis
      using assms(2) sw by (auto simp: dispatchNextFutureEvent_def split: list.splits)
  qed
qed

lemma clock_inv_dispatch_loop:
  assumes "nonneg_exec exec" and "clock_inv start (fst sw)"
  shows "clock_inv start (fst (outcome_state (dispatch_loop exec fuel sw)))"
  using assms(2)
proof (induction fuel arbitrary: sw)
  case 0
  then show ?case by (cases sw) simp
next
  case (Suc n)
  obtain s w where sw: "sw = (s, w)" by (cases sw)
  show ?case
  proof (cases "m_enable s \<and> (m_futureEvents s \<noteq> [] \<or> m_chores s \<noteq> [])")
    case True
    have c: "clock_inv start (fst (outcome_state (dispatchChores exec n (s, w))))"
      using Suc.prems sw by (intro clock_inv_dispatchChores [OF assms(1)]) simp
    show ?thesis
    proof (cases "dispatchChores exec n (s, w)")
      case (OutOfFuel sw')
      with c True sw show ?thesis by simp
    next
      case (Finished sw')
      with c have "clock_inv start (fst sw')" by simp
      then have "clock_inv start (fst (dispatchNextFutureEvent exec sw'))"
        by (rule clock_inv_dispatchNextFutureEvent [OF assms(1)])
      then have "clock_inv start (fst (outcome_state
          (dispatch_loop exec n (dispatchNextFutureEvent exec sw'))))"
        by (rule Suc.IH)
      with Finished True sw show ?thesis by simp
    qed
  next
    case False
    then show ?thesis using Suc.prems sw by auto
  qed
qed

lemma clock_inv_dispatch:
  assumes "nonneg_exec exec" and "clock_inv start (fst sw)"
  shows "clock_inv start (fst (outcome_state (dispatch exec fuel sw)))"
proof -
  obtain s w where sw: "sw = (s, w)" by (cases sw)
  have "clock_inv start
          (case m_futureEvents s of
             [] \<Rightarrow> s\<lparr>m_enable := True\<rparr>
           | ev # rest \<Rightarrow>
               s\<lparr>m_enable := True, m_now := m_expireTime ev,
                 clock_history := m_expireTime ev # clock_history s\<rparr>)"
  proof (cases "m_futureEvents s")
    case Nil
    then show ?thesis
      using assms(2) sw by (auto simp: clock_inv_def)
  next
    case (Cons ev rest)
    then show ?thesis
      using assms(2) sw clock_inv_advance(2) [of start s ev rest] by simp
  qed
  then show ?thesis
    using sw by (simp add: dispatch_def clock_inv_dispatch_loop [OF assms(1)])
qed

lemma clock_inv_loop_ops:
  assumes "nonneg_exec exec" and "\<forall>op \<in> set ops. op_nonneg op" and "clock_inv start (fst sw)"
  shows "clock_inv start (fst (outcome_state (loop_ops exec ops sw)))"
  using assms(2,3)
proof (induction ops arbitrary: sw)
  case Nil
  then show ?case by simp
next
  case (Cons op ops)
  obtain s w where sw: "sw = (s, w)" by (cases sw)
  show ?case
  proof (cases op)
    case (Call c)
    have "clock_inv start (loop_call s c)"
      using Cons.prems Call sw by (intro clock_inv_loop_call) simp_all
    then have "clock_inv start (fst (outcome_state (loop_ops exec ops (loop_call s c, w))))"
      using Cons.prems(1) by (intro Cons.IH) simp_all
    then show ?thesis using Call sw by simp
  next
    case (Dispatch fuel)
    have d: "clock_inv start (fst (outcome_state (dispatch exec fuel sw)))"
      by (rule clock_inv_dispatch [OF assms(1) Cons.prems(2)])
    show ?thesis
    proof (cases "dispatch exec fuel sw")
      case (OutOfFuel sw')
      with d Dispatch show ?thesis by simp
    next
      case (Finished sw')
      with d have "clock_inv start (fst sw')" by simp
      then have "clock_inv start (fst (outcome_state (loop_ops exec ops sw')))"
        using Cons.prems(1) by (intro Cons.IH) simp_all
      with Finished Dispatch show ?thesis by simp
    qed
  qed
qed

lemma clock_inv_init: "clock_inv start (EventLoop_init start)"
  by (simp add: clock_inv_def EventLoop_init_def)

text \<open>
  Claim C5, as the code has it.  Start from a fresh loop and let the code around it call
  \<open>postEvent\<close>, \<open>stop\<close> and \<open>dispatch\<close> in any order, the closures it runs calling
  \<open>postEvent\<close> and \<open>stop\<close> in turn.  If no call passes a negative delta and no
  \<open>now + delta\<close> overflows, then the values the clock takes, from its start through
  every fast-forward and every dispatched event, are non-decreasing, and
  \<open>getEventTime\<close> returns the latest of them.  This holds at every point of a run:
  for any fuel, also where a \<open>dispatch\<close> has not returned.
\<close>

theorem clock_monotone:
  assumes "\<forall>e t w. \<forall>c \<in> set (snd (exec e t w)). 0 \<le> sint (call_delta c)"
      and "\<forall>op \<in> set ops. op_nonneg op"
      and "s' = fst (outcome_state (loop_ops exec ops (EventLoop_init start, w)))"
      and "\<not> signed_overflow s'"
  shows "sorted (clock_values start s') \<and>
         sint (getEventTime s') = last (clock_values start s') \<and>
         sint start \<le> sint (getEventTime s')"
proof -
  have n: "nonneg_exec exec"
    using assms(1) by (simp add: nonneg_exec_def)
  have "clock_inv start s'"
    unfolding assms(3)
    by (rule clock_inv_loop_ops [OF n assms(2)]) (simp add: clock_inv_init)
  then have a: "sorted_wrt (\<lambda>a b. sint b \<le> sint a) (clock_history s' @ [start])"
    and b: "hd (clock_history s' @ [start]) = m_now s'"
    using assms(4) by (auto simp: clock_inv_def)
  have r: "clock_values start s' = rev (map sint (clock_history s' @ [start]))"
    by (simp add: clock_values_def rev_map)
  have "sorted_wrt (\<lambda>x y. y \<le> x) (map sint (clock_history s' @ [start]))"
    using a by (simp only: sorted_wrt_map)
  then have s: "sorted (clock_values start s')"
    unfolding r by (simp only: sorted_wrt_rev)
  have l: "last (clock_values start s') = sint (m_now s')"
    unfolding r using b by (cases "clock_history s'") (simp_all add: last_rev)
  have "sint start \<le> sint (m_now s')"
    using a b by (cases "clock_history s'") (auto simp: sorted_wrt_append)
  then show ?thesis
    using s l by (simp add: getEventTime_def clock_values_def)
qed

theorem clock_monotone_witness:
  "\<not> signed_overflow (fst (outcome_state (loop_ops chain_exec forward_ops (EventLoop_init 10, ())))) \<and>
   clock_values 10 (fst (outcome_state (loop_ops chain_exec forward_ops (EventLoop_init 10, ())))) =
     [10, 15, 15, 18, 21, 30] \<and>
   sorted (clock_values 10 (fst (outcome_state (loop_ops chain_exec forward_ops (EventLoop_init 10, ()))))) \<and>
   sint (getEventTime (fst (outcome_state (loop_ops chain_exec forward_ops (EventLoop_init 10, ()))))) = 30"
proof -
  have h1: "\<forall>e t w. \<forall>c \<in> set (snd (chain_exec e t w)). 0 \<le> sint (call_delta c)"
    by (simp add: chain_exec_def)
  have h2: "\<forall>op \<in> set forward_ops. op_nonneg op"
    by (simp add: forward_ops_def)
  have h4: "\<not> signed_overflow
      (fst (outcome_state (loop_ops chain_exec forward_ops (EventLoop_init 10, ()))))"
    by code_simp
  have v: "clock_values 10
      (fst (outcome_state (loop_ops chain_exec forward_ops (EventLoop_init 10, ())))) =
      [10, 15, 15, 18, 21, 30]"
    by code_simp
  show ?thesis
    using clock_monotone [OF h1 h2 refl h4] h4 v by simp
qed

text \<open>
  Claim C5 as stated fails: \<open>postEvent\<close> accepts a negative delta.  On a fresh loop at
  time 10, an event posted with delta -5 expires at 5; the fast-forward at the start of
  \<open>dispatch\<close> sets the clock to 5, and so does the dispatch of the event.
\<close>

theorem clock_moves_backwards:
  "clock_values 10 (fst (outcome_state (loop_ops chain_exec backward_ops (EventLoop_init 10, ())))) =
     [10, 5, 5] \<and>
   sint (getEventTime (fst (outcome_state (loop_ops chain_exec backward_ops (EventLoop_init 10, ()))))) = 5 \<and>
   \<not> signed_overflow (fst (outcome_state (loop_ops chain_exec backward_ops (EventLoop_init 10, ())))) \<and>
   \<not> sorted (clock_values 10
        (fst (outcome_state (loop_ops chain_exec backward_ops (EventLoop_init 10, ())))))"
  by code_simp

section \<open>Batches of the replayer\<close>

lemma publish_facts:
  assumes "publish r = (r1, out1)"
  shows "m_inputData r1 = m_inputData r" "m_nextLine r1 = m_nextLine r"
        "EndBatchCall \<notin> set out1"
        "filter is_publish out1 = [PublishCall (symbol (m_nextLine r)) (book (m_nextLine r))]"
  using assms by (auto simp: publish_def Let_def split: option.splits)

lemma dispatch_records_batch:
  assumes "startTime \<noteq> TimestampNs_max"
  shows "\<exists>r' out.
           dispatch_records startTime r calls = Some (r', calls @ out) \<and>
           EndBatchCall \<notin> set out \<and>
           filter is_publish out =
             map (\<lambda>l. PublishCall (symbol l) (book l))
               (m_nextLine r # takeWhile (\<lambda>l. timestamp l = startTime) (m_inputData r)) \<and>
           getNextEventTime r' =
             (case dropWhile (\<lambda>l. timestamp l = startTime) (m_inputData r) of
                [] \<Rightarrow> TimestampNs_max
              | l # ls \<Rightarrow> timestamp l) \<and>
           m_inputData r' = tl (dropWhile (\<lambda>l. timestamp l = startTime) (m_inputData r))"
proof (induction "m_inputData r" arbitrary: r calls)
  case Nil
  obtain r1 out1 where p: "publish r = (r1, out1)" by (cases "publish r")
  note f = publish_facts [OF p]
  have rn: "readNextLine r1 = r1\<lparr>m_nextLine := (m_nextLine r1)\<lparr>timestamp := TimestampNs_max\<rparr>\<rparr>"
    using Nil f(1) by (simp add: readNextLine_def)
  have t: "getNextEventTime (readNextLine r1) = TimestampNs_max"
    by (simp add: rn getNextEventTime_def)
  have "dispatch_records startTime r calls = Some (readNextLine r1, calls @ out1)"
    using assms t by (subst dispatch_records.simps) (simp add: p)
  then show ?case
    using Nil [symmetric] f t by (simp add: rn)
next
  case (Cons l ls)
  obtain r1 out1 where p: "publish r = (r1, out1)" by (cases "publish r")
  note f = publish_facts [OF p]
  have rn: "readNextLine r1 = r1\<lparr>m_nextLine := l, m_inputData := ls\<rparr>"
    using Cons.hyps(2) [symmetric] f(1) by (simp add: readNextLine_def)
  have t: "getNextEventTime (readNextLine r1) = timestamp l"
    by (simp add: rn getNextEventTime_def)
  show ?case
  proof (cases "timestamp l = startTime")
    case True
    have step: "dispatch_records startTime r calls =
        dispatch_records startTime (readNextLine r1) (calls @ out1)"
      using True t by (subst dispatch_records.simps) (simp add: p)
    have "ls = m_inputData (readNextLine r1)"
      by (simp add: rn)
    from Cons.hyps(1) [OF this, of "calls @ out1"]
    obtain r' out where ih:
      "dispatch_records startTime (readNextLine r1) (calls @ out1) = Some (r', (calls @ out1) @ out)"
      "EndBatchCall \<notin> set out"
      "filter is_publish out =
         map (\<lambda>l. PublishCall (symbol l) (book l))
           (m_nextLine (readNextLine r1) #
            takeWhile (\<lambda>l. timestamp l = startTime) (m_inputData (readNextLine r1)))"
      "getNextEventTime r' =
         (case dropWhile (\<lambda>l. timestamp l = startTime) (m_inputData (readNextLine r1)) of
            [] \<Rightarrow> TimestampNs_max
          | l # ls \<Rightarrow> timestamp l)"
      "m_inputData r' = tl (dropWhile (\<lambda>l. timestamp l = startTime) (m_inputData (readNextLine r1)))"
      by blast
    have "dispatch_records startTime r calls = Some (r', calls @ (out1 @ out))"
      using step ih(1) by simp
    moreover have "EndBatchCall \<notin> set (out1 @ out)"
      using f(3) ih(2) by simp
    moreover have "filter is_publish (out1 @ out) =
        map (\<lambda>l. PublishCall (symbol l) (book l))
          (m_nextLine r # takeWhile (\<lambda>l. timestamp l = startTime) (m_inputData r))"
      using f(4) ih(3) True Cons.hyps(2) [symmetric] by (simp add: rn)
    moreover have "getNextEventTime r' =
        (case dropWhile (\<lambda>l. timestamp l = startTime) (m_inputData r) of
           [] \<Rightarrow> TimestampNs_max
         | l # ls \<Rightarrow> timestamp l)"
      using ih(4) True Cons.hyps(2) [symmetric] by (simp add: rn)
    moreover have "m_inputData r' = tl (dropWhile (\<lambda>l. timestamp l = startTime) (m_inputData r))"
      using ih(5) True Cons.hyps(2) [symmetric] by (simp add: rn)
    ultimately show ?thesis by blast
  next
    case False
    have "dispatch_records startTime r calls = Some (readNextLine r1, calls @ out1)"
      using False t by (subst dispatch_records.simps) (simp add: p)
    then show ?thesis
      using Cons.hyps(2) [symmetric] f t False by (simp add: rn)
  qed
qed

text \<open>
  Claim C7.  A replayer is exhausted when it reports \<open>TimestampNs::max()\<close>.  For a
  replayer that is not, one \<open>dispatchNextEvent\<close> returns, having published, in stream
  order, the lookahead and every record that follows it in the input up to the first one
  with another timestamp, and having called \<open>endBatch\<close> once, last; the lookahead is
  then that first other record, and the input what follows it.  After any read,
  \<open>getNextEventTime\<close> is the timestamp of the record read, or \<open>TimestampNs::max()\<close>
  when the input had no line left.
\<close>

theorem replayer_batch:
  assumes "sint (getNextEventTime r) < sint TimestampNs_max"
  shows "\<exists>r' out.
           dispatchNextEvent r = Some (r', out @ [EndBatchCall]) \<and>
           EndBatchCall \<notin> set out \<and>
           filter is_publish out =
             map (\<lambda>l. PublishCall (symbol l) (book l))
               (m_nextLine r #
                takeWhile (\<lambda>l. timestamp l = getNextEventTime r) (m_inputData r)) \<and>
           getNextEventTime r' =
             (case dropWhile (\<lambda>l. timestamp l = getNextEventTime r) (m_inputData r) of
                [] \<Rightarrow> TimestampNs_max
              | l # ls \<Rightarrow> timestamp l) \<and>
           m_inputData r' = tl (dropWhile (\<lambda>l. timestamp l = getNextEventTime r) (m_inputData r)) \<and>
           getNextEventTime (readNextLine r0) =
             (case m_inputData r0 of [] \<Rightarrow> TimestampNs_max | l # ls \<Rightarrow> timestamp l)"
proof -
  have ne: "getNextEventTime r \<noteq> TimestampNs_max"
    using assms by auto
  from dispatch_records_batch [OF ne, of r "[]"]
  obtain r' out where d:
    "dispatch_records (getNextEventTime r) r [] = Some (r', out)"
    "EndBatchCall \<notin> set out"
    "filter is_publish out =
       map (\<lambda>l. PublishCall (symbol l) (book l))
         (m_nextLine r # takeWhile (\<lambda>l. timestamp l = getNextEventTime r) (m_inputData r))"
    "getNextEventTime r' =
       (case dropWhile (\<lambda>l. timestamp l = getNextEventTime r) (m_inputData r) of
          [] \<Rightarrow> TimestampNs_max
        | l # ls \<Rightarrow> timestamp l)"
    "m_inputData r' = tl (dropWhile (\<lambda>l. timestamp l = getNextEventTime r) (m_inputData r))"
    by auto
  have "dispatchNextEvent r = Some (r', out @ [EndBatchCall])"
    using assms d(1) by (simp add: dispatchNextEvent_def)
  moreover have "getNextEventTime (readNextLine r0) =
      (case m_inputData r0 of [] \<Rightarrow> TimestampNs_max | l # ls \<Rightarrow> timestamp l)"
    by (simp add: readNextLine_def getNextEventTime_def split: list.splits)
  ultimately show ?thesis
    using d(2-5) by blast
qed

text \<open>At the sentinel the replayer counts as exhausted: nothing is published.\<close>

lemma exhausted_dispatch:
  "getNextEventTime r = TimestampNs_max \<Longrightarrow> dispatchNextEvent r = Some (r, [])"
  by (simp add: dispatchNextEvent_def)

lemmas replayer_eval = calls_of_dispatch_def time_after_dispatch_def dispatchNextEvent_def
  Replayer_init_def readNextLine_def publish_def getNextEventTime_def ex_lines_def
  TimestampNs_max_def Let_def dispatch_records.simps skip.simps

theorem replayer_batch_witness:
  "getNextEventTime (Replayer_init 0 ex_lines) = 100 \<and>
   calls_of_dispatch (Replayer_init 0 ex_lines) =
     Some [CreateEntryCall ''EUR/USD'' ex_book, PublishCall ''EUR/USD'' ex_book,
           CreateEntryCall ''USD/JPY'' inf_bid_book, PublishCall ''USD/JPY'' inf_bid_book,
           PublishCall ''EUR/USD'' (ex_book\<lparr>askPrice := double_of_int 2\<rparr>),
           EndBatchCall] \<and>
   time_after_dispatch (Replayer_init 0 ex_lines) = Some 200 \<and>
   getNextEventTime (Replayer_init 0 []) = TimestampNs_max \<and>
   getNextEventTime (Replayer_init 150 ex_lines) = 200"
proof -
  have h: "sint (getNextEventTime (Replayer_init 0 ex_lines)) < sint TimestampNs_max"
    by (simp add: replayer_eval)
  have a: "getNextEventTime (Replayer_init 0 ex_lines) = 100"
    by (simp add: replayer_eval)
  have c: "calls_of_dispatch (Replayer_init 0 ex_lines) =
     Some [CreateEntryCall ''EUR/USD'' ex_book, PublishCall ''EUR/USD'' ex_book,
           CreateEntryCall ''USD/JPY'' inf_bid_book, PublishCall ''USD/JPY'' inf_bid_book,
           PublishCall ''EUR/USD'' (ex_book\<lparr>askPrice := double_of_int 2\<rparr>),
           EndBatchCall]"
    by (simp add: replayer_eval)
  have t: "time_after_dispatch (Replayer_init 0 ex_lines) = Some 200"
    by (simp add: replayer_eval)
  have e: "getNextEventTime (Replayer_init 0 []) = TimestampNs_max"
    by (simp add: replayer_eval)
  have s: "getNextEventTime (Replayer_init 150 ex_lines) = 200"
    by (simp add: replayer_eval)
  show ?thesis
    using replayer_batch [OF h, of "Replayer_init 0 []"] a c t e s by blast
qed

end
